theory Spec2Isabelle
  imports Main "HOL-Library.AList" "HOL-Library.Multiset" "HOL-Library.Word"
begin

section \<open>Data model of package config\<close>

text \<open>
  Modelled from the spec: the types \<open>wpg.Column\<close> and \<open>wpg.Table\<close> are declared in
  package \<open>wpg\<close>, which is not part of the source file. The spec gives their shape:
  a column is a name and an SQL type string; a table is a name, an ordered list of
  columns and a list of unique-constraint column groups.
\<close>

record Column =
  Column_Name :: string
  Column_Type :: string

record Table =
  Table_Name :: string
  Table_Columns :: "Column list"
  Table_Unique :: "string list list"

text \<open>
  Modelled from the spec: \<open>dig.BlockData\<close>, \<open>dig.Input\<close> and \<open>dig.Event\<close> are declared in
  package \<open>dig\<close>, which is not part of the source file. A block-data field binds a name
  to a column; an event exposes an ordered list of named, optionally indexed inputs,
  each optionally bound to a column.
\<close>

record BlockData =
  BlockData_Name :: string
  BlockData_Column :: string

record Input =
  Input_Name :: string
  Input_Indexed :: bool
  Input_Column :: string

record Event =
  Event_Inputs :: "Input list"

text \<open>
  The method \<open>Event.Selected\<close> of package \<open>dig\<close> is not part of the source file. The
  functions that call it take it as the parameter \<open>Selected\<close>, so what is proved of them
  holds whatever that method computes.

  Modelled from the spec: for the examples, \<open>Selected_bound\<close> is the method as the spec
  describes it, the derived subset of the inputs that are bound to a column, in the
  order of the inputs.
\<close>

definition Selected_bound :: "Event \<Rightarrow> Input list" where
  "Selected_bound ev = filter (\<lambda>inp. 0 < length (Input_Column inp)) (Event_Inputs ev)"

record Dashboard =
  Dashboard_EnableLoopbackAuthn :: bool
  Dashboard_DisableAuthn :: bool
  Dashboard_RootPassword :: string

record Source =
  Source_Name :: string
  Source_ChainID :: "64 word"
  Source_URL :: string
  Source_Start :: "64 word"
  Source_Stop :: "64 word"
  Source_Concurrency :: int
  Source_BatchSize :: int

record Compiled =
  Compiled_Name :: string
  Compiled_Config :: string

record Integration =
  Integration_Name :: string
  Integration_Enabled :: bool
  Integration_Sources :: "Source list"
  Integration_Table :: Table
  Integration_Compiled :: Compiled
  Integration_Block :: "BlockData list"
  Integration_Event :: Event

record Root =
  Root_Dashboard :: Dashboard
  Root_PGURL :: string
  Root_Sources :: "Source list"
  Root_Integrations :: "Integration list"

text \<open>
  Go errors are values. An error returned by a collaborator (\<open>wstrings.Safe\<close>,
  \<open>Table.Migrate\<close>, the database) has the abstract type \<open>'e\<close>; each \<open>fmt.Errorf\<close> of the
  source is one constructor, carrying the values the format string prints.
\<close>

datatype 'e error =
    Unsafe_value string 'e
  | Checking_dangerous_strings "'e error"
  | Checking_references "'e error"
  | Duplicate_column string
  | Duplicate_input string
  | Duplicate_block_data_field string
  | Missing_column string
  | Missing_block_column string
  | Migrating_integration string 'e
  | Loading_db_integrations 'e

text \<open>
  A Go map is an association list with distinct keys, written with \<open>AList.update\<close> and
  read with \<open>map_of\<close>. Ranging over a Go map visits its entries in an order the
  runtime chooses; a function of this type stands for that choice.
\<close>

type_synonym ('k, 'v) map_range = "('k \<times> 'v) list \<Rightarrow> ('k \<times> 'v) list"

definition map_range_order :: "('k, 'v) map_range \<Rightarrow> bool" where
  "map_range_order rng = (\<forall>m. mset (rng m) = mset m)"

section \<open>Table union, DDL and migration\<close>

text \<open>
  The search loop the source writes inline in \<open>union\<close>, \<open>ValidateColRefs\<close>,
  \<open>AddUniqueIndex\<close> and \<open>hasCol\<close>: scan the columns, stop at the first with this name.
\<close>

primrec hasCol :: "Column list \<Rightarrow> string \<Rightarrow> bool" where
  "hasCol [] name = False"
| "hasCol (c # cs) name = (if Column_Name c = name then True else hasCol cs name)"

text \<open>The body of \<open>union\<close>: the outer loop over \<open>b.Columns\<close>, with \<open>a.Columns\<close> growing.\<close>

primrec union_loop :: "Column list \<Rightarrow> Column list \<Rightarrow> Column list" where
  "union_loop acols [] = acols"
| "union_loop acols (bc # bcs) =
     union_loop
       (if hasCol acols (Column_Name bc) then acols
        else acols @ [\<lparr>Column_Name = Column_Name bc, Column_Type = Column_Type bc\<rparr>])
       bcs"

definition union_table :: "Table \<Rightarrow> Table \<Rightarrow> Table" where
  "union_table a b = a\<lparr>Table_Columns := union_loop (Table_Columns a) (Table_Columns b)\<rparr>"

text \<open>
  \<open>Migrate\<close>: the table model's migration routine acts on the database, so it is a
  parameter that takes the database state and returns its error and the new state.
\<close>

fun Migrate_loop :: "(Table \<Rightarrow> 'pg \<Rightarrow> 'e option \<times> 'pg) \<Rightarrow> Integration list \<Rightarrow> 'pg
    \<Rightarrow> 'e error option \<times> 'pg" where
  "Migrate_loop Table_Migrate [] pg = (None, pg)"
| "Migrate_loop Table_Migrate (ig # igs) pg =
     (case Table_Migrate (Integration_Table ig) pg of
        (Some err, pg') \<Rightarrow> (Some (Migrating_integration (Integration_Name ig) err), pg')
      | (None, pg') \<Rightarrow> Migrate_loop Table_Migrate igs pg')"

definition Migrate :: "(Table \<Rightarrow> 'pg \<Rightarrow> 'e option \<times> 'pg) \<Rightarrow> 'pg \<Rightarrow> Root
    \<Rightarrow> 'e error option \<times> 'pg" where
  "Migrate Table_Migrate pg conf = Migrate_loop Table_Migrate (Root_Integrations conf) pg"

text \<open>The first loop of \<open>DDL\<close>: the map from table name to merged table.\<close>

definition DDL_step :: "Integration \<Rightarrow> (string \<times> Table) list \<Rightarrow> (string \<times> Table) list" where
  "DDL_step ig tables =
     (let nt = Integration_Table ig;
          nt = (case map_of tables (Table_Name nt) of
                  Some et \<Rightarrow> union_table nt et
                | None \<Rightarrow> nt)
      in AList.update (Table_Name nt) nt tables)"

definition DDL_tables :: "Root \<Rightarrow> (string \<times> Table) list" where
  "DDL_tables conf = fold DDL_step (Root_Integrations conf) []"

text \<open>
  \<open>DDL\<close>: the second loop ranges over the map and appends each table's statements;
  the table model's \<open>DDL\<close> method is a parameter.
\<close>

definition DDL :: "(string, Table) map_range \<Rightarrow> (Table \<Rightarrow> string list) \<Rightarrow> Root \<Rightarrow> string list" where
  "DDL rng Table_DDL conf = concat (map (\<lambda>(_, t). Table_DDL t) (rng (DDL_tables conf)))"

text \<open>
  The table that folding the same-named tables \<open>ts\<close> in order leaves in the map: the
  first as it is, each later one united with what is there (\<open>union(nt, et)\<close>).
\<close>

definition merge_tables :: "Table list \<Rightarrow> Table option" where
  "merge_tables ts =
     (case ts of
        [] \<Rightarrow> None
      | t # ts' \<Rightarrow> Some (foldl (\<lambda>et nt. union_table nt et) t ts'))"

section \<open>Unique index\<close>

definition possible :: "string list" where
  "possible = [''ig_name'', ''src_name'', ''block_num'', ''tx_idx'', ''log_idx'', ''abi_idx'']"

primrec AddUniqueIndex_loop :: "Column list \<Rightarrow> string list \<Rightarrow> string list \<Rightarrow> string list" where
  "AddUniqueIndex_loop cols [] uidx = uidx"
| "AddUniqueIndex_loop cols (p # ps) uidx =
     AddUniqueIndex_loop cols ps (if hasCol cols p then uidx @ [p] else uidx)"

definition AddUniqueIndex :: "Table \<Rightarrow> Table" where
  "AddUniqueIndex table =
     (if 0 < length (Table_Unique table) then table
      else
        (let uidx = AddUniqueIndex_loop (Table_Columns table) possible []
         in if 0 < length uidx then table\<lparr>Table_Unique := Table_Unique table @ [uidx]\<rparr>
            else table))"

section \<open>Safety check\<close>

text \<open>
  \<open>CheckUserInput\<close>: the closure \<open>check\<close> reads and writes the captured variable \<open>err\<close>,
  which is threaded through here. \<open>wstrings.Safe\<close> is a parameter: it returns \<open>None\<close>
  for \<open>nil\<close>. The first argument of \<open>check\<close> is the label the call sites pass; the
  closure's body never reads it.
\<close>

definition check :: "(string \<Rightarrow> 'e option) \<Rightarrow> string \<Rightarrow> string \<Rightarrow> 'e error option
    \<Rightarrow> 'e error option" where
  "check Safe name val err =
     (if err \<noteq> None then err
      else (case Safe val of
              None \<Rightarrow> None
            | Some e \<Rightarrow> Some (Unsafe_value val e)))"

definition check_column :: "(string \<Rightarrow> 'e option) \<Rightarrow> Column \<Rightarrow> 'e error option
    \<Rightarrow> 'e error option" where
  "check_column Safe c err =
     check Safe ''column type'' (Column_Type c)
       (check Safe ''column name'' (Column_Name c) err)"

definition check_integration :: "(string \<Rightarrow> 'e option) \<Rightarrow> Integration \<Rightarrow> 'e error option
    \<Rightarrow> 'e error option" where
  "check_integration Safe ig err =
     fold (check_column Safe) (Table_Columns (Integration_Table ig))
       (check Safe ''table name'' (Table_Name (Integration_Table ig))
         (check Safe ''integration name'' (Integration_Name ig) err))"

definition CheckUserInput :: "(string \<Rightarrow> 'e option) \<Rightarrow> Root \<Rightarrow> 'e error option" where
  "CheckUserInput Safe conf =
     fold (\<lambda>sc. check Safe ''source name'' (Source_Name sc)) (Root_Sources conf)
       (fold (check_integration Safe) (Root_Integrations conf) None)"

text \<open>The values \<open>CheckUserInput\<close> passes to \<open>check\<close>, in the order it passes them.\<close>

definition checked_values :: "Root \<Rightarrow> string list" where
  "checked_values conf =
     concat (map (\<lambda>ig. Integration_Name ig # Table_Name (Integration_Table ig) #
                    concat (map (\<lambda>c. [Column_Name c, Column_Type c])
                              (Table_Columns (Integration_Table ig))))
               (Root_Integrations conf)) @
     map Source_Name (Root_Sources conf)"

section \<open>Required fields\<close>

primrec hasBD :: "BlockData list \<Rightarrow> string \<Rightarrow> bool" where
  "hasBD [] name = False"
| "hasBD (bd # bds) name = (if BlockData_Name bd = name then True else hasBD bds name)"

definition add :: "string \<Rightarrow> string \<Rightarrow> Integration \<Rightarrow> Integration" where
  "add name t ig =
     (let ig = (if \<not> hasBD (Integration_Block ig) name
                then ig\<lparr>Integration_Block := Integration_Block ig @
                       [\<lparr>BlockData_Name = name, BlockData_Column = name\<rparr>]\<rparr>
                else ig)
      in if \<not> hasCol (Table_Columns (Integration_Table ig)) name
         then ig\<lparr>Integration_Table := (Integration_Table ig)
                \<lparr>Table_Columns := Table_Columns (Integration_Table ig) @
                   [\<lparr>Column_Name = name, Column_Type = t\<rparr>]\<rparr>\<rparr>
         else ig)"

definition AddRequiredFields :: "(Event \<Rightarrow> Input list) \<Rightarrow> Integration \<Rightarrow> Integration" where
  "AddRequiredFields Selected ig0 =
     (let ig = add ''ig_name'' ''text'' ig0;
          ig = add ''src_name'' ''text'' ig;
          ig = add ''block_num'' ''numeric'' ig;
          ig = add ''tx_idx'' ''int'' ig;
          ig = (if 0 < length (Selected (Integration_Event ig))
                then add ''log_idx'' ''int'' ig else ig)
      in fold (\<lambda>inp ig. if \<not> Input_Indexed inp then add ''abi_idx'' ''int2'' ig else ig)
           (Selected (Integration_Event ig)) ig)"

text \<open>
  The required fields as the spec's table lists them, with their backing types:
  four always, \<open>log_idx\<close> when an input is selected, \<open>abi_idx\<close> when a selected input
  is not indexed.
\<close>

definition required_fields :: "(Event \<Rightarrow> Input list) \<Rightarrow> Integration \<Rightarrow> (string \<times> string) list" where
  "required_fields Selected ig =
     [(''ig_name'', ''text''), (''src_name'', ''text''), (''block_num'', ''numeric''),
      (''tx_idx'', ''int'')] @
     (if Selected (Integration_Event ig) \<noteq> [] then [(''log_idx'', ''int'')] else []) @
     (if list_ex (\<lambda>inp. \<not> Input_Indexed inp) (Selected (Integration_Event ig))
      then [(''abi_idx'', ''int2'')] else [])"

section \<open>Reference validation\<close>

text \<open>The three duplicate scans: a set of the names seen so far, the first repeat is returned.\<close>

primrec first_duplicate :: "string list \<Rightarrow> string set \<Rightarrow> string option" where
  "first_duplicate [] seen = None"
| "first_duplicate (n # ns) seen =
     (if n \<in> seen then Some n else first_duplicate ns (insert n seen))"

primrec missing_input_column :: "Column list \<Rightarrow> Input list \<Rightarrow> string option" where
  "missing_input_column cols [] = None"
| "missing_input_column cols (inp # inps) =
     (if \<not> hasCol cols (Input_Column inp) then Some (Input_Name inp)
      else missing_input_column cols inps)"

primrec missing_block_column :: "Column list \<Rightarrow> BlockData list \<Rightarrow> string option" where
  "missing_block_column cols [] = None"
| "missing_block_column cols (bd # bds) =
     (if length (BlockData_Column bd) = 0 then Some (BlockData_Name bd)
      else if \<not> hasCol cols (BlockData_Column bd) then Some (BlockData_Name bd)
      else missing_block_column cols bds)"

definition ValidateColRefs :: "(Event \<Rightarrow> Input list) \<Rightarrow> Integration \<Rightarrow> 'e error option" where
  "ValidateColRefs Selected ig =
     (let cols = Table_Columns (Integration_Table ig) in
      case first_duplicate (map Column_Name cols) {} of
        Some n \<Rightarrow> Some (Duplicate_column n)
      | None \<Rightarrow>
     (case first_duplicate (map Input_Name (Event_Inputs (Integration_Event ig))) {} of
        Some n \<Rightarrow> Some (Duplicate_input n)
      | None \<Rightarrow>
     (case first_duplicate (map BlockData_Name (Integration_Block ig)) {} of
        Some n \<Rightarrow> Some (Duplicate_block_data_field n)
      | None \<Rightarrow>
     (case missing_input_column cols (Selected (Integration_Event ig)) of
        Some n \<Rightarrow> Some (Missing_column n)
      | None \<Rightarrow>
     (case missing_block_column cols (Integration_Block ig) of
        Some n \<Rightarrow> Some (Missing_block_column n)
      | None \<Rightarrow> None)))))"

section \<open>ValidateFix\<close>

text \<open>
  \<open>ValidateFix\<close> works through a pointer: the integrations are changed in place, also
  when an error is returned, so the model returns the error and the configuration as
  the call leaves it. The slices of different integrations are taken not to share a
  backing array, as in a configuration decoded from JSON.
\<close>

fun ValidateFix_loop :: "(Event \<Rightarrow> Input list) \<Rightarrow> Integration list
    \<Rightarrow> 'e error option \<times> Integration list" where
  "ValidateFix_loop Selected [] = (None, [])"
| "ValidateFix_loop Selected (ig # igs) =
     (let ig = AddRequiredFields Selected ig;
          ig = ig\<lparr>Integration_Table := AddUniqueIndex (Integration_Table ig)\<rparr>
      in case ValidateColRefs Selected ig of
           Some err \<Rightarrow> (Some (Checking_references err), ig # igs)
         | None \<Rightarrow>
             (case ValidateFix_loop Selected igs of
                (res, igs') \<Rightarrow> (res, ig # igs')))"

definition ValidateFix :: "(string \<Rightarrow> 'e option) \<Rightarrow> (Event \<Rightarrow> Input list) \<Rightarrow> Root
    \<Rightarrow> 'e error option \<times> Root" where
  "ValidateFix Safe Selected conf =
     (case CheckUserInput Safe conf of
        Some err \<Rightarrow> (Some (Checking_dangerous_strings err), conf)
      | None \<Rightarrow>
          (case ValidateFix_loop Selected (Root_Integrations conf) of
             (res, igs) \<Rightarrow> (res, conf\<lparr>Root_Integrations := igs\<rparr>)))"

text \<open>What one pass of the loop of \<open>ValidateFix\<close> makes of an integration.\<close>

definition fix_integration :: "(Event \<Rightarrow> Input list) \<Rightarrow> Integration \<Rightarrow> Integration" where
  "fix_integration Selected ig =
     (AddRequiredFields Selected ig)
       \<lparr>Integration_Table := AddUniqueIndex (Integration_Table (AddRequiredFields Selected ig))\<rparr>"

section \<open>Merging declared and persisted configuration\<close>




definition uniq_sources :: "Source list \<Rightarrow> Source list \<Rightarrow> (64 word \<times> Source) list" where
  "uniq_sources indb declared =
     fold (\<lambda>src uniq. AList.update (Source_ChainID src) src uniq) declared
       (fold (\<lambda>src uniq. AList.update (Source_ChainID src) src uniq) indb [])"

text \<open>
  \<open>slices.SortFunc\<close> with \<open>cmp.Compare\<close> on the chain identifiers sorts in ascending
  unsigned order. It is not stable, but the elements come from a map keyed by chain
  identifier, so no two compare equal and the sorted list is the one \<open>sort_key\<close> gives.
\<close>

definition AllSources :: "(64 word, Source) map_range \<Rightarrow> Root \<Rightarrow> 'e + Source list
    \<Rightarrow> 'e error + Source list" where
  "AllSources rng conf indb =
     (case indb of
        Inl err \<Rightarrow> Inl (Loading_db_integrations err)
      | Inr indb \<Rightarrow>
          (let uniq = uniq_sources indb (Root_Sources conf);
               res = map snd (rng uniq)
           in Inr (sort_key Source_ChainID res)))"



section \<open>Example configurations\<close>

definition col :: "string \<Rightarrow> string \<Rightarrow> Column" where
  "col n t = \<lparr>Column_Name = n, Column_Type = t\<rparr>"

definition table_user_unique :: Table where
  "table_user_unique =
     \<lparr>Table_Name = ''t'', Table_Columns = [col ''ig_name'' ''text''], Table_Unique = [[]]\<rparr>"

definition table_four :: Table where
  "table_four =
     \<lparr>Table_Name = ''t'',
      Table_Columns = [col ''tx_idx'' ''int'', col ''x'' ''text'', col ''block_num'' ''numeric'',
                       col ''src_name'' ''text'', col ''ig_name'' ''text''],
      Table_Unique = []\<rparr>"

definition table_plain :: Table where
  "table_plain = \<lparr>Table_Name = ''t'', Table_Columns = [col ''x'' ''text''], Table_Unique = []\<rparr>"

definition integration_of :: "string \<Rightarrow> bool \<Rightarrow> Table \<Rightarrow> Integration" where
  "integration_of n en t =
     \<lparr>Integration_Name = n, Integration_Enabled = en, Integration_Sources = [],
      Integration_Table = t,
      Integration_Compiled = \<lparr>Compiled_Name = [], Compiled_Config = []\<rparr>,
      Integration_Block = [], Integration_Event = \<lparr>Event_Inputs = []\<rparr>\<rparr>"

definition root_of :: "Source list \<Rightarrow> Integration list \<Rightarrow> Root" where
  "root_of srcs igs =
     \<lparr>Root_Dashboard = \<lparr>Dashboard_EnableLoopbackAuthn = False, Dashboard_DisableAuthn = False,
                         Dashboard_RootPassword = []\<rparr>,
      Root_PGURL = [], Root_Sources = srcs, Root_Integrations = igs\<rparr>"

definition prices_A :: Table where
  "prices_A = \<lparr>Table_Name = ''prices'',
      Table_Columns = [col ''x'' ''int'', col ''ig_name'' ''text''], Table_Unique = []\<rparr>"

definition prices_B :: Table where
  "prices_B = \<lparr>Table_Name = ''prices'',
      Table_Columns = [col ''y'' ''int'', col ''ig_name'' ''text''], Table_Unique = []\<rparr>"

definition root_prices :: Root where
  "root_prices = root_of [] [integration_of ''A'' True prices_A, integration_of ''B'' False prices_B]"

definition root_prices_other :: Root where
  "root_prices_other =
     root_of [] [integration_of ''A'' True prices_A, integration_of ''C'' True table_plain,
                 integration_of ''B'' False prices_B]"

definition root_prices_flipped :: Root where
  "root_prices_flipped =
     root_of [] [integration_of ''A'' False prices_A, integration_of ''B'' True prices_B]"

definition prices_x :: Table where
  "prices_x = \<lparr>Table_Name = ''prices'', Table_Columns = [col ''x'' ''int''], Table_Unique = []\<rparr>"

definition prices_y :: Table where
  "prices_y = \<lparr>Table_Name = ''prices'', Table_Columns = [col ''y'' ''text''], Table_Unique = []\<rparr>"

text \<open>A table model for the examples: one statement per column.\<close>

definition column_statements :: "Table \<Rightarrow> string list" where
  "column_statements t = map (\<lambda>c. Table_Name t @ ''.'' @ Column_Name c) (Table_Columns t)"

text \<open>A migration routine for the examples: it records the tables it is called on.\<close>

definition trace_migrate :: "Table \<Rightarrow> Table list \<Rightarrow> unit option \<times> Table list" where
  "trace_migrate t pg = (None, pg @ [t])"

definition transfer_event :: Event where
  "transfer_event =
     \<lparr>Event_Inputs =
        [\<lparr>Input_Name = ''from'', Input_Indexed = True, Input_Column = []\<rparr>,
         \<lparr>Input_Name = ''amount'', Input_Indexed = False, Input_Column = ''amount''\<rparr>]\<rparr>"

definition transfers :: Integration where
  "transfers =
     \<lparr>Integration_Name = ''transfers'', Integration_Enabled = True, Integration_Sources = [],
      Integration_Table = \<lparr>Table_Name = ''transfers'',
         Table_Columns = [col ''amount'' ''numeric'', col ''tx_idx'' ''bigint''],
         Table_Unique = []\<rparr>,
      Integration_Compiled = \<lparr>Compiled_Name = [], Compiled_Config = []\<rparr>,
      Integration_Block = [], Integration_Event = transfer_event\<rparr>"

text \<open>A safety policy for the examples that accepts every string.\<close>

definition no_check :: "string \<Rightarrow> unit option" where
  "no_check val = None"

definition root_transfers :: Root where
  "root_transfers = root_of [] [transfers]"

definition transfers_fixed :: Integration where
  "transfers_fixed =
     \<lparr>Integration_Name = ''transfers'', Integration_Enabled = True, Integration_Sources = [],
      Integration_Table = \<lparr>Table_Name = ''transfers'',
         Table_Columns = [col ''amount'' ''numeric'', col ''tx_idx'' ''bigint'',
            col ''ig_name'' ''text'', col ''src_name'' ''text'', col ''block_num'' ''numeric'',
            col ''log_idx'' ''int'', col ''abi_idx'' ''int2''],
         Table_Unique = [[''ig_name'', ''src_name'', ''block_num'', ''tx_idx'', ''log_idx'',
            ''abi_idx'']]\<rparr>,
      Integration_Compiled = \<lparr>Compiled_Name = [], Compiled_Config = []\<rparr>,
      Integration_Block =
        map (\<lambda>n. \<lparr>BlockData_Name = n, BlockData_Column = n\<rparr>)
          [''ig_name'', ''src_name'', ''block_num'', ''tx_idx'', ''log_idx'', ''abi_idx''],
      Integration_Event = transfer_event\<rparr>"

definition source_of :: "string \<Rightarrow> 64 word \<Rightarrow> string \<Rightarrow> Source" where
  "source_of n c u =
     \<lparr>Source_Name = n, Source_ChainID = c, Source_URL = u, Source_Start = 0, Source_Stop = 0,
      Source_Concurrency = 0, Source_BatchSize = 0\<rparr>"

definition persisted_sources :: "Source list" where
  "persisted_sources =
     [source_of ''mainnet'' 1 ''http://persisted'', source_of ''base'' 8453 ''http://base'']"

definition root_sources :: Root where
  "root_sources =
     root_of [source_of ''optimism'' 10 ''http://optimism'',
              source_of ''mainnet'' 1 ''http://declared''] []"




text \<open>A safety policy for the examples that rejects a string with a semicolon.\<close>

definition no_semicolon :: "string \<Rightarrow> string option" where
  "no_semicolon val = (if CHR '';'' \<in> set val then Some ''unsafe'' else None)"

definition root_unsafe_integration_name :: Root where
  "root_unsafe_integration_name = root_of [] [integration_of ''a;b'' True prices_x]"

definition root_unsafe_table_name :: Root where
  "root_unsafe_table_name =
     root_of [] [integration_of ''prices'' True (prices_x\<lparr>Table_Name := ''a;b''\<rparr>)]"

section \<open>Theorems\<close>

lemma hasCol_iff: "hasCol cs name \<longleftrightarrow> name \<in> set (map Column_Name cs)"
  by (induction cs) auto

subsection \<open>AddUniqueIndex\<close>

lemma AddUniqueIndex_loop_filter:
  "AddUniqueIndex_loop cols ps uidx =
     uidx @ filter (\<lambda>p. p \<in> set (map Column_Name cols)) ps"
  by (induction ps arbitrary: uidx) (simp_all add: hasCol_iff)

text \<open>
  C3. A table that already declares a unique-constraint group is left unchanged by
  \<open>AddUniqueIndex\<close>. Otherwise the candidates \<open>ig_name\<close>, \<open>src_name\<close>, \<open>block_num\<close>,
  \<open>tx_idx\<close>, \<open>log_idx\<close>, \<open>abi_idx\<close> that are column names of the table, in that order,
  become the one unique-constraint group of the table; when none of them is a column,
  the table is left unchanged. The function has no error result.
\<close>

theorem AddUniqueIndex_spec:
  "(Table_Unique t \<noteq> [] \<longrightarrow> AddUniqueIndex t = t) \<and>
   (Table_Unique t = [] \<longrightarrow>
      (let uidx = filter (\<lambda>p. p \<in> set (map Column_Name (Table_Columns t)))
                    [''ig_name'', ''src_name'', ''block_num'', ''tx_idx'', ''log_idx'', ''abi_idx'']
       in (uidx \<noteq> [] \<longrightarrow> AddUniqueIndex t = t\<lparr>Table_Unique := [uidx]\<rparr>) \<and>
          (uidx = [] \<longrightarrow> AddUniqueIndex t = t)))"
  by (simp add: AddUniqueIndex_def AddUniqueIndex_loop_filter possible_def Let_def)

theorem AddUniqueIndex_spec_witness:
  "AddUniqueIndex table_user_unique = table_user_unique \<and>
   AddUniqueIndex table_four =
     table_four\<lparr>Table_Unique := [[''ig_name'', ''src_name'', ''block_num'', ''tx_idx'']]\<rparr> \<and>
   AddUniqueIndex table_plain = table_plain"
  using AddUniqueIndex_spec [of table_user_unique] AddUniqueIndex_spec [of table_four]
    AddUniqueIndex_spec [of table_plain]
  by (simp add: table_user_unique_def table_four_def table_plain_def col_def)

subsection \<open>Table union\<close>

lemma hasCol_image: "hasCol cs name \<longleftrightarrow> name \<in> Column_Name ` set cs"
  by (induction cs) auto

lemma Column_rebuild:
  "\<lparr>Column_Name = Column_Name c, Column_Type = Column_Type c\<rparr> = (c::Column)"
  by (cases c) simp

lemma union_loop_names:
  "Column_Name ` set (union_loop acols bcols) =
     Column_Name ` set acols \<union> Column_Name ` set bcols"
proof (induction bcols arbitrary: acols)
  case Nil
  show ?case by simp
next
  case (Cons bc bcs)
  show ?case
    by (cases "hasCol acols (Column_Name bc)") (auto simp: Cons.IH hasCol_image)
qed

lemma union_table_names:
  "Column_Name ` set (Table_Columns (union_table a b)) =
     Column_Name ` set (Table_Columns a) \<union> Column_Name ` set (Table_Columns b)"
  by (simp add: union_table_def union_loop_names)

lemma union_table_Name: "Table_Name (union_table a b) = Table_Name a"
  by (simp add: union_table_def)

lemma inj_on_disjoint_names:
  assumes a: "inj_on Column_Name (set acols)" and b: "inj_on Column_Name (set bcols)"
    and d: "Column_Name ` set acols \<inter> Column_Name ` set bcols = {}"
  shows "inj_on Column_Name (set acols \<union> set bcols)"
proof (rule inj_onI)
  fix x y
  assume x: "x \<in> set acols \<union> set bcols" and y: "y \<in> set acols \<union> set bcols"
    and eq: "Column_Name x = Column_Name y"
  have "x \<in> set acols \<Longrightarrow> y \<in> set bcols \<Longrightarrow> False"
    using d eq by (metis disjoint_iff image_eqI)
  moreover have "x \<in> set bcols \<Longrightarrow> y \<in> set acols \<Longrightarrow> False"
    using d eq by (metis disjoint_iff image_eqI)
  ultimately show "x = y"
    using x y eq a b by (metis Un_iff inj_onD)
qed

lemma union_loop_set:
  "inj_on Column_Name (set acols \<union> set bcols) \<Longrightarrow>
     set (union_loop acols bcols) = set acols \<union> set bcols"
proof (induction bcols arbitrary: acols)
  case Nil
  then show ?case by simp
next
  case (Cons bc bcs)
  have sub: "inj_on Column_Name (set acols \<union> set bcs)"
    using Cons.prems by (rule inj_on_subset) auto
  show ?case
  proof (cases "hasCol acols (Column_Name bc)")
    case True
    then obtain c where c: "c \<in> set acols" "Column_Name c = Column_Name bc"
      by (auto simp: hasCol_image)
    have "c = bc"
      using Cons.prems c by (simp add: inj_on_def)
    with c have bc: "bc \<in> set acols" by simp
    have "set (union_loop acols bcs) = set acols \<union> set bcs"
      using sub by (rule Cons.IH)
    with True bc show ?thesis by (simp add: insert_absorb)
  next
    case False
    have "inj_on Column_Name (set (acols @ [bc]) \<union> set bcs)"
      using Cons.prems by (rule inj_on_subset) auto
    then have "set (union_loop (acols @ [bc]) bcs) = set (acols @ [bc]) \<union> set bcs"
      by (rule Cons.IH)
    with False show ?thesis by (simp add: Column_rebuild)
  qed
qed

lemma union_loop_append:
  "distinct (map Column_Name bcols) \<Longrightarrow>
   Column_Name ` set acols \<inter> Column_Name ` set bcols = {} \<Longrightarrow>
     union_loop acols bcols = acols @ bcols"
proof (induction bcols arbitrary: acols)
  case Nil
  show ?case by simp
next
  case (Cons bc bcs)
  from Cons.prems have new: "\<not> hasCol acols (Column_Name bc)"
    by (simp add: hasCol_image)
  from Cons.prems have "distinct (map Column_Name bcs)"
    and "Column_Name ` set (acols @ [bc]) \<inter> Column_Name ` set bcs = {}"
    by auto
  then have "union_loop (acols @ [bc]) bcs = (acols @ [bc]) @ bcs"
    by (rule Cons.IH)
  with new show ?case by (simp add: Column_rebuild)
qed

text \<open>
  C6. For every two tables whose column names are unique within each table (the
  invariant of a table) and whose column name sets are disjoint, \<open>union(A,B)\<close> and
  \<open>union(B,A)\<close> contain the same set of columns. The order differs: each union holds the
  columns of its first argument followed by those of its second.
\<close>

theorem union_table_commutes:
  assumes "distinct (map Column_Name (Table_Columns A))"
    and "distinct (map Column_Name (Table_Columns B))"
    and "set (map Column_Name (Table_Columns A)) \<inter> set (map Column_Name (Table_Columns B)) = {}"
  shows "set (Table_Columns (union_table A B)) = set (Table_Columns (union_table B A)) \<and>
         Table_Columns (union_table A B) = Table_Columns A @ Table_Columns B \<and>
         Table_Columns (union_table B A) = Table_Columns B @ Table_Columns A"
proof -
  from assms(3) have ab: "Column_Name ` set (Table_Columns A) \<inter>
      Column_Name ` set (Table_Columns B) = {}"
    by simp
  then have ba: "Column_Name ` set (Table_Columns B) \<inter>
      Column_Name ` set (Table_Columns A) = {}"
    by (simp add: Int_commute)
  have 1: "Table_Columns (union_table A B) = Table_Columns A @ Table_Columns B"
    using union_loop_append [OF assms(2) ab] by (simp add: union_table_def)
  have 2: "Table_Columns (union_table B A) = Table_Columns B @ Table_Columns A"
    using union_loop_append [OF assms(1) ba] by (simp add: union_table_def)
  from 1 2 show ?thesis by (simp add: Un_commute)
qed

theorem union_table_commutes_witness:
  "distinct (map Column_Name (Table_Columns prices_A)) \<and>
   distinct (map Column_Name (Table_Columns prices_y)) \<and>
   set (map Column_Name (Table_Columns prices_A)) \<inter>
     set (map Column_Name (Table_Columns prices_y)) = {} \<and>
   Table_Columns (union_table prices_A prices_y) =
     [col ''x'' ''int'', col ''ig_name'' ''text'', col ''y'' ''text''] \<and>
   Table_Columns (union_table prices_y prices_A) =
     [col ''y'' ''text'', col ''x'' ''int'', col ''ig_name'' ''text''] \<and>
   set (Table_Columns (union_table prices_A prices_y)) =
     set (Table_Columns (union_table prices_y prices_A))"
proof -
  have a: "distinct (map Column_Name (Table_Columns prices_A))"
    by (simp add: prices_A_def col_def)
  have y: "distinct (map Column_Name (Table_Columns prices_y))"
    by (simp add: prices_y_def col_def)
  have d: "set (map Column_Name (Table_Columns prices_A)) \<inter>
     set (map Column_Name (Table_Columns prices_y)) = {}"
    by (simp add: prices_A_def prices_y_def col_def)
  have c: "Table_Columns prices_A = [col ''x'' ''int'', col ''ig_name'' ''text'']"
      "Table_Columns prices_y = [col ''y'' ''text'']"
    by (simp_all add: prices_A_def prices_y_def)
  from union_table_commutes [OF a y d]
  have u: "set (Table_Columns (union_table prices_A prices_y)) =
             set (Table_Columns (union_table prices_y prices_A))"
    and ay: "Table_Columns (union_table prices_A prices_y) =
               Table_Columns prices_A @ Table_Columns prices_y"
    and ya: "Table_Columns (union_table prices_y prices_A) =
               Table_Columns prices_y @ Table_Columns prices_A"
    by blast+
  from ay have ay': "Table_Columns (union_table prices_A prices_y) =
     [col ''x'' ''int'', col ''ig_name'' ''text'', col ''y'' ''text'']"
    by (simp only: c append.simps)
  from ya have ya': "Table_Columns (union_table prices_y prices_A) =
     [col ''y'' ''text'', col ''x'' ''int'', col ''ig_name'' ''text'']"
    by (simp only: c append.simps)
  from a y d ay' ya' u show ?thesis by blast
qed

subsection \<open>DDL\<close>

lemma DDL_step_map_of:
  "map_of (DDL_step ig tables) =
     (map_of tables)(Table_Name (Integration_Table ig) \<mapsto>
        (case map_of tables (Table_Name (Integration_Table ig)) of
           Some et \<Rightarrow> union_table (Integration_Table ig) et
         | None \<Rightarrow> Integration_Table ig))"
  by (simp add: DDL_step_def Let_def update_conv' union_table_Name split: option.split)

lemma DDL_step_distinct:
  "distinct (map fst tables) \<Longrightarrow> distinct (map fst (DDL_step ig tables))"
  by (simp add: DDL_step_def Let_def distinct_update)

lemma DDL_fold_distinct:
  "distinct (map fst tables) \<Longrightarrow> distinct (map fst (fold DDL_step igs tables))"
  by (induction igs arbitrary: tables) (simp_all add: DDL_step_distinct)

lemma DDL_fold_lookup:
  "map_of (fold DDL_step igs tables) n =
     (case map_of tables n of
        None \<Rightarrow> merge_tables (filter (\<lambda>t. Table_Name t = n) (map Integration_Table igs))
      | Some et \<Rightarrow>
          Some (foldl (\<lambda>et nt. union_table nt et) et
                  (filter (\<lambda>t. Table_Name t = n) (map Integration_Table igs))))"
proof (induction igs arbitrary: tables)
  case Nil
  show ?case by (simp add: merge_tables_def split: option.split)
next
  case (Cons ig igs)
  show ?case
    by (simp add: Cons.IH DDL_step_map_of merge_tables_def split: option.split)
qed

lemma foldl_union_names:
  "Column_Name ` set (Table_Columns (foldl (\<lambda>et nt. union_table nt et) t ts)) =
     Column_Name ` set (Table_Columns t) \<union> (\<Union>u\<in>set ts. Column_Name ` set (Table_Columns u))"
proof (induction ts arbitrary: t)
  case Nil
  show ?case by simp
next
  case (Cons u us)
  show ?case
    by (simp add: Cons.IH union_table_names Un_assoc Un_left_commute Un_commute)
qed

lemma merge_tables_names:
  assumes "merge_tables ts = Some t"
  shows "Column_Name ` set (Table_Columns t) =
           (\<Union>u\<in>set ts. Column_Name ` set (Table_Columns u))"
proof (cases ts)
  case Nil
  with assms show ?thesis by (simp add: merge_tables_def)
next
  case (Cons u us)
  with assms have "t = foldl (\<lambda>et nt. union_table nt et) u us"
    by (simp add: merge_tables_def)
  with Cons show ?thesis by (simp add: foldl_union_names)
qed

lemma filter_key_distinct:
  "distinct (map fst xs) \<Longrightarrow> (k, v) \<in> set xs \<Longrightarrow> filter (\<lambda>(n, _). n = k) xs = [(k, v)]"
proof (induction xs)
  case Nil
  then show ?case by simp
next
  case (Cons x xs)
  show ?case
  proof (cases "fst x = k")
    case True
    with Cons.prems have "x = (k, v)"
      by (cases x) (auto simp: image_iff)
    moreover from Cons.prems True have "filter (\<lambda>(n, _). n = k) xs = []"
      by (auto simp: filter_empty_conv image_iff)
    ultimately show ?thesis by simp
  next
    case False
    with Cons show ?thesis by (cases x) auto
  qed
qed

lemma map_range_order_set: "map_range_order rng \<Longrightarrow> set (rng m) = set m"
  by (metis map_range_order_def set_mset_mset)

lemma map_range_order_distinct:
  assumes "map_range_order rng"
  shows "distinct (map fst (rng m)) = distinct (map fst m)"
proof -
  from assms have "mset (rng m) = mset m"
    by (simp add: map_range_order_def)
  then have "image_mset fst (mset (rng m)) = image_mset fst (mset m)"
    by simp
  then have "mset (map fst (rng m)) = mset (map fst m)"
    by simp
  then show ?thesis by (rule mset_eq_imp_distinct_iff)
qed

lemma map_range_order_rev: "map_range_order rev"
  by (simp add: map_range_order_def)

lemma DDL_tables_root_prices:
  "DDL_tables root_prices =
     [(''prices'', \<lparr>Table_Name = ''prices'',
         Table_Columns = [col ''y'' ''int'', col ''ig_name'' ''text'', col ''x'' ''int''],
         Table_Unique = []\<rparr>)]"
  by (simp add: DDL_tables_def root_prices_def root_of_def integration_of_def DDL_step_def
      prices_A_def prices_B_def union_table_def col_def)

lemma DDL_prices_scenario:
  assumes "map_range_order rng"
  shows "(\<forall>n. map_of (DDL_tables conf) n =
              merge_tables (filter (\<lambda>t. Table_Name t = n)
                 (map Integration_Table (Root_Integrations conf)))) \<and>
         distinct (map fst (rng (DDL_tables conf))) \<and>
         (\<forall>A B x y.
            A \<in> set (Root_Integrations conf) \<and> B \<in> set (Root_Integrations conf) \<and>
            Integration_Name A = ''A'' \<and> Integration_Name B = ''B'' \<and>
            Table_Name (Integration_Table A) = ''prices'' \<and>
            Table_Name (Integration_Table B) = ''prices'' \<and>
            x \<in> set (map Column_Name (Table_Columns (Integration_Table A))) \<and>
            y \<in> set (map Column_Name (Table_Columns (Integration_Table B))) \<longrightarrow>
            (\<exists>t. filter (\<lambda>(n, _). n = ''prices'') (rng (DDL_tables conf)) = [(''prices'', t)] \<and>
                 x \<in> set (map Column_Name (Table_Columns t)) \<and>
                 y \<in> set (map Column_Name (Table_Columns t)) \<and>
                 (\<exists>pre post. DDL rng Table_DDL conf = pre @ Table_DDL t @ post)))"
proof (intro conjI allI impI)
  fix n
  show "map_of (DDL_tables conf) n =
          merge_tables (filter (\<lambda>t. Table_Name t = n)
             (map Integration_Table (Root_Integrations conf)))"
    by (simp add: DDL_tables_def DDL_fold_lookup)
next
  have "distinct (map fst (DDL_tables conf))"
    by (simp add: DDL_tables_def DDL_fold_distinct)
  then show d: "distinct (map fst (rng (DDL_tables conf)))"
    using assms by (simp add: map_range_order_distinct)
  fix A B x y
  assume h: "A \<in> set (Root_Integrations conf) \<and> B \<in> set (Root_Integrations conf) \<and>
            Integration_Name A = ''A'' \<and> Integration_Name B = ''B'' \<and>
            Table_Name (Integration_Table A) = ''prices'' \<and>
            Table_Name (Integration_Table B) = ''prices'' \<and>
            x \<in> set (map Column_Name (Table_Columns (Integration_Table A))) \<and>
            y \<in> set (map Column_Name (Table_Columns (Integration_Table B)))"
  let ?ts = "filter (\<lambda>t. Table_Name t = ''prices'')
               (map Integration_Table (Root_Integrations conf))"
  have A: "Integration_Table A \<in> set ?ts" and B: "Integration_Table B \<in> set ?ts"
    using h by auto
  have look: "map_of (DDL_tables conf) ''prices'' = merge_tables ?ts"
    by (simp add: DDL_tables_def DDL_fold_lookup)
  from A obtain t where t: "merge_tables ?ts = Some t"
    by (cases ?ts) (auto simp: merge_tables_def)
  have names: "Column_Name ` set (Table_Columns t) =
                 (\<Union>u\<in>set ?ts. Column_Name ` set (Table_Columns u))"
    using t by (rule merge_tables_names)
  have x: "x \<in> Column_Name ` set (Table_Columns t)"
    unfolding names using A h by (intro UN_I [of "Integration_Table A"]) auto
  have y: "y \<in> Column_Name ` set (Table_Columns t)"
    unfolding names using B h by (intro UN_I [of "Integration_Table B"]) auto
  from look t have "(''prices'', t) \<in> set (DDL_tables conf)"
    by (simp add: map_of_SomeD)
  then have mem: "(''prices'', t) \<in> set (rng (DDL_tables conf))"
    using assms by (simp add: map_range_order_set)
  have one: "filter (\<lambda>(n, _). n = ''prices'') (rng (DDL_tables conf)) = [(''prices'', t)]"
    using d mem by (rule filter_key_distinct)
  from mem obtain es1 es2 where "rng (DDL_tables conf) = es1 @ (''prices'', t) # es2"
    by (auto simp: in_set_conv_decomp)
  then have "DDL rng Table_DDL conf =
      concat (map (\<lambda>(_, t). Table_DDL t) es1) @ Table_DDL t @
      concat (map (\<lambda>(_, t). Table_DDL t) es2)"
    by (simp add: DDL_def)
  then have "\<exists>pre post. DDL rng Table_DDL conf = pre @ Table_DDL t @ post"
    by blast
  with one x y
  show "\<exists>t. filter (\<lambda>(n, _). n = ''prices'') (rng (DDL_tables conf)) = [(''prices'', t)] \<and>
                 x \<in> set (map Column_Name (Table_Columns t)) \<and>
                 y \<in> set (map Column_Name (Table_Columns t)) \<and>
                 (\<exists>pre post. DDL rng Table_DDL conf = pre @ Table_DDL t @ post)"
    by auto
qed

lemma DDL_statements_mset:
  assumes "map_range_order rng"
  shows "mset (DDL rng Table_DDL conf) =
           sum_mset (image_mset (\<lambda>(_, t). mset (Table_DDL t)) (mset (DDL_tables conf)))"
proof -
  have "mset (DDL rng Table_DDL conf) =
          sum_list (map (\<lambda>(_, t). mset (Table_DDL t)) (rng (DDL_tables conf)))"
    by (simp add: DDL_def mset_concat comp_def case_prod_unfold)
  also have "\<dots> = sum_mset (mset (map (\<lambda>(_, t). mset (Table_DDL t)) (rng (DDL_tables conf))))"
    by (simp only: sum_mset_sum_list)
  also have "\<dots> = sum_mset (image_mset (\<lambda>(_, t). mset (Table_DDL t)) (mset (rng (DDL_tables conf))))"
    by simp
  also have "mset (rng (DDL_tables conf)) = mset (DDL_tables conf)"
    using assms by (simp add: map_range_order_def)
  finally show ?thesis .
qed

lemma DDL_tables_root_prices_other:
  "DDL_tables root_prices_other =
     [(''prices'', \<lparr>Table_Name = ''prices'',
         Table_Columns = [col ''y'' ''int'', col ''ig_name'' ''text'', col ''x'' ''int''],
         Table_Unique = []\<rparr>),
      (''t'', table_plain)]"
  by (simp add: DDL_tables_def root_prices_other_def root_of_def integration_of_def DDL_step_def
      prices_A_def prices_B_def table_plain_def union_table_def col_def)

text \<open>
  C5. \<open>DDL\<close> groups the integrations by table name: under each table name the map
  holds the fold, by \<open>union\<close>, of the tables the integrations declare under that name.
  The result of \<open>DDL\<close> is the statements of every entry of that map, each entry asked
  once, concatenated in the order the runtime ranges over the map in; so, whatever that
  order, the statements returned are, with their multiplicities, those of all merged
  tables. In a root where integrations named \<open>A\<close> and \<open>B\<close> both declare the table name
  \<open>prices\<close>, one with a column \<open>x\<close> and one with a column \<open>y\<close>, exactly one table is
  visited under \<open>prices\<close>, its columns include \<open>x\<close> and \<open>y\<close>, and its statements are
  part of the result of \<open>DDL\<close>.
\<close>

theorem DDL_merges_same_named_tables:
  assumes "map_range_order rng"
  shows "(\<forall>n. map_of (DDL_tables conf) n =
              merge_tables (filter (\<lambda>t. Table_Name t = n)
                 (map Integration_Table (Root_Integrations conf)))) \<and>
         distinct (map fst (rng (DDL_tables conf))) \<and>
         (\<exists>es. mset es = mset (DDL_tables conf) \<and>
               DDL rng Table_DDL conf = concat (map (\<lambda>(_, t). Table_DDL t) es)) \<and>
         mset (DDL rng Table_DDL conf) =
           sum_mset (image_mset (\<lambda>(_, t). mset (Table_DDL t)) (mset (DDL_tables conf))) \<and>
         (\<forall>A B x y.
            A \<in> set (Root_Integrations conf) \<and> B \<in> set (Root_Integrations conf) \<and>
            Integration_Name A = ''A'' \<and> Integration_Name B = ''B'' \<and>
            Table_Name (Integration_Table A) = ''prices'' \<and>
            Table_Name (Integration_Table B) = ''prices'' \<and>
            x \<in> set (map Column_Name (Table_Columns (Integration_Table A))) \<and>
            y \<in> set (map Column_Name (Table_Columns (Integration_Table B))) \<longrightarrow>
            (\<exists>t. filter (\<lambda>(n, _). n = ''prices'') (rng (DDL_tables conf)) = [(''prices'', t)] \<and>
                 x \<in> set (map Column_Name (Table_Columns t)) \<and>
                 y \<in> set (map Column_Name (Table_Columns t)) \<and>
                 (\<exists>pre post. DDL rng Table_DDL conf = pre @ Table_DDL t @ post)))"
proof -
  have "mset (rng (DDL_tables conf)) = mset (DDL_tables conf)"
    using assms by (simp add: map_range_order_def)
  moreover have "DDL rng Table_DDL conf =
      concat (map (\<lambda>(_, t). Table_DDL t) (rng (DDL_tables conf)))"
    by (simp add: DDL_def)
  ultimately have link: "\<exists>es. mset es = mset (DDL_tables conf) \<and>
               DDL rng Table_DDL conf = concat (map (\<lambda>(_, t). Table_DDL t) es)"
    by blast
  from DDL_prices_scenario [OF assms, of conf Table_DDL] link
    DDL_statements_mset [OF assms, of Table_DDL conf]
  show ?thesis by (intro conjI) blast+
qed

theorem DDL_merges_same_named_tables_witness:
  "map_range_order (rev :: (string, Table) map_range) \<and>
   integration_of ''A'' True prices_A \<in> set (Root_Integrations root_prices_other) \<and>
   integration_of ''B'' False prices_B \<in> set (Root_Integrations root_prices_other) \<and>
   Integration_Name (integration_of ''A'' True prices_A) = ''A'' \<and>
   Integration_Name (integration_of ''B'' False prices_B) = ''B'' \<and>
   Table_Name (Integration_Table (integration_of ''A'' True prices_A)) = ''prices'' \<and>
   Table_Name (Integration_Table (integration_of ''B'' False prices_B)) = ''prices'' \<and>
   ''x'' \<in> set (map Column_Name (Table_Columns (Integration_Table (integration_of ''A'' True prices_A)))) \<and>
   ''y'' \<in> set (map Column_Name (Table_Columns (Integration_Table (integration_of ''B'' False prices_B)))) \<and>
   rev (DDL_tables root_prices_other) =
     [(''t'', table_plain),
      (''prices'', \<lparr>Table_Name = ''prices'',
         Table_Columns = [col ''y'' ''int'', col ''ig_name'' ''text'', col ''x'' ''int''],
         Table_Unique = []\<rparr>)] \<and>
   DDL rev column_statements root_prices_other =
     [''t.x'', ''prices.y'', ''prices.ig_name'', ''prices.x''] \<and>
   DDL rev column_statements root_prices = [''prices.y'', ''prices.ig_name'', ''prices.x'']"
proof -
  have h: "integration_of ''A'' True prices_A \<in> set (Root_Integrations root_prices_other) \<and>
   integration_of ''B'' False prices_B \<in> set (Root_Integrations root_prices_other) \<and>
   Integration_Name (integration_of ''A'' True prices_A) = ''A'' \<and>
   Integration_Name (integration_of ''B'' False prices_B) = ''B'' \<and>
   Table_Name (Integration_Table (integration_of ''A'' True prices_A)) = ''prices'' \<and>
   Table_Name (Integration_Table (integration_of ''B'' False prices_B)) = ''prices'' \<and>
   ''x'' \<in> set (map Column_Name (Table_Columns (Integration_Table (integration_of ''A'' True prices_A)))) \<and>
   ''y'' \<in> set (map Column_Name (Table_Columns (Integration_Table (integration_of ''B'' False prices_B))))"
    by (simp add: root_prices_other_def root_of_def integration_of_def prices_A_def prices_B_def
        col_def)
  have d: "DDL rev column_statements root_prices_other =
     [''t.x'', ''prices.y'', ''prices.ig_name'', ''prices.x'']"
    by (simp add: DDL_def DDL_tables_root_prices_other column_statements_def table_plain_def
        col_def)
  have d': "DDL rev column_statements root_prices = [''prices.y'', ''prices.ig_name'', ''prices.x'']"
    by (simp add: DDL_def DDL_tables_root_prices column_statements_def col_def)
  from DDL_merges_same_named_tables [OF map_range_order_rev, of root_prices_other
      column_statements]
    DDL_merges_same_named_tables [OF map_range_order_rev, of root_prices column_statements]
    h d d' map_range_order_rev DDL_tables_root_prices_other
  show ?thesis by simp
qed

subsection \<open>The enabled flag\<close>

text \<open>
  C10. When the integrations of two roots differ at most in their \<open>Enabled\<close> flags, the
  two roots give the same table map and, for each order of ranging over it, the same
  list of DDL statements; and \<open>Migrate\<close> returns the same error and leaves the same
  database state, for every migration routine of the table model, so it calls that
  routine on the same tables in the same order. Neither function reads the flag.
\<close>

theorem enabled_flag_does_not_matter:
  assumes "map (\<lambda>ig. ig\<lparr>Integration_Enabled := False\<rparr>) (Root_Integrations conf) =
           map (\<lambda>ig. ig\<lparr>Integration_Enabled := False\<rparr>) (Root_Integrations conf')"
  shows "DDL_tables conf = DDL_tables conf' \<and>
         DDL rng Table_DDL conf = DDL rng Table_DDL conf' \<and>
         Migrate Table_Migrate pg conf = Migrate Table_Migrate pg conf'"
proof -
  have tables: "map Integration_Table (Root_Integrations conf) =
                map Integration_Table (Root_Integrations conf')"
    using arg_cong [OF assms, of "map Integration_Table"] by (simp add: comp_def)
  have names: "map Integration_Name (Root_Integrations conf) =
               map Integration_Name (Root_Integrations conf')"
    using arg_cong [OF assms, of "map Integration_Name"] by (simp add: comp_def)
  have fold_eq: "fold DDL_step igs tbl = fold DDL_step igs' tbl"
    if "map Integration_Table igs = map Integration_Table igs'" for igs igs' tbl
    using that
  proof (induction igs arbitrary: igs' tbl)
    case Nil
    then show ?case by simp
  next
    case (Cons ig igs)
    then obtain ig' igs'' where s: "igs' = ig' # igs''" by (cases igs') auto
    with Cons.prems have "Integration_Table ig = Integration_Table ig'"
      and r: "map Integration_Table igs = map Integration_Table igs''"
      by auto
    then have "DDL_step ig tbl = DDL_step ig' tbl"
      by (simp add: DDL_step_def)
    with Cons.IH [OF r] s show ?case by simp
  qed
  have mig_eq: "Migrate_loop Table_Migrate igs pg = Migrate_loop Table_Migrate igs' pg"
    if "map Integration_Table igs = map Integration_Table igs'"
      and "map Integration_Name igs = map Integration_Name igs'" for igs igs' pg
    using that
  proof (induction igs arbitrary: igs' pg)
    case Nil
    then show ?case by simp
  next
    case (Cons ig igs)
    then obtain ig' igs'' where s: "igs' = ig' # igs''" by (cases igs') auto
    with Cons.prems have e: "Integration_Table ig = Integration_Table ig'"
        "Integration_Name ig = Integration_Name ig'"
      and r: "map Integration_Table igs = map Integration_Table igs''"
        "map Integration_Name igs = map Integration_Name igs''"
      by auto
    show ?case
      using Cons.IH [OF r] s e by (simp split: prod.split option.split)
  qed
  have t: "DDL_tables conf = DDL_tables conf'"
    unfolding DDL_tables_def using tables by (rule fold_eq)
  moreover from t have "DDL rng Table_DDL conf = DDL rng Table_DDL conf'"
    by (simp add: DDL_def)
  moreover have "Migrate Table_Migrate pg conf = Migrate Table_Migrate pg conf'"
    unfolding Migrate_def using tables names by (rule mig_eq)
  ultimately show ?thesis by simp
qed

theorem enabled_flag_does_not_matter_witness:
  "map (\<lambda>ig. ig\<lparr>Integration_Enabled := False\<rparr>) (Root_Integrations root_prices) =
     map (\<lambda>ig. ig\<lparr>Integration_Enabled := False\<rparr>) (Root_Integrations root_prices_flipped) \<and>
   map Integration_Enabled (Root_Integrations root_prices) = [True, False] \<and>
   map Integration_Enabled (Root_Integrations root_prices_flipped) = [False, True] \<and>
   DDL rev column_statements root_prices = DDL rev column_statements root_prices_flipped \<and>
   Migrate trace_migrate [] root_prices = Migrate trace_migrate [] root_prices_flipped \<and>
   Migrate trace_migrate [] root_prices = (None, [prices_A, prices_B])"
proof -
  have h: "map (\<lambda>ig. ig\<lparr>Integration_Enabled := False\<rparr>) (Root_Integrations root_prices) =
     map (\<lambda>ig. ig\<lparr>Integration_Enabled := False\<rparr>) (Root_Integrations root_prices_flipped)"
    by (simp add: root_prices_def root_prices_flipped_def root_of_def integration_of_def)
  have f: "map Integration_Enabled (Root_Integrations root_prices) = [True, False] \<and>
   map Integration_Enabled (Root_Integrations root_prices_flipped) = [False, True]"
    by (simp add: root_prices_def root_prices_flipped_def root_of_def integration_of_def)
  have m: "Migrate trace_migrate [] root_prices = (None, [prices_A, prices_B])"
    by (simp add: Migrate_def root_prices_def root_of_def integration_of_def trace_migrate_def)
  from enabled_flag_does_not_matter [OF h, of rev column_statements trace_migrate "[]"] h f m
  show ?thesis by simp
qed

subsection \<open>AddRequiredFields\<close>

lemma hasBD_image: "hasBD bds name \<longleftrightarrow> name \<in> BlockData_Name ` set bds"
  by (induction bds) auto

lemma add_Event [simp]: "Integration_Event (add n t ig) = Integration_Event ig"
  by (simp add: add_def Let_def)

lemma add_Block:
  "Integration_Block (add n t ig) =
     Integration_Block ig @
     (if hasBD (Integration_Block ig) n then []
      else [\<lparr>BlockData_Name = n, BlockData_Column = n\<rparr>])"
  by (simp add: add_def Let_def)

lemma add_Columns:
  "Table_Columns (Integration_Table (add n t ig)) =
     Table_Columns (Integration_Table ig) @
     (if hasCol (Table_Columns (Integration_Table ig)) n then []
      else [\<lparr>Column_Name = n, Column_Type = t\<rparr>])"
  by (simp add: add_def Let_def)

lemma add_present:
  "hasBD (Integration_Block ig) n \<Longrightarrow> hasCol (Table_Columns (Integration_Table ig)) n \<Longrightarrow>
     add n t ig = ig"
  by (simp add: add_def Let_def)

lemma hasBD_add [simp]:
  "hasBD (Integration_Block (add n t ig)) m \<longleftrightarrow> m = n \<or> hasBD (Integration_Block ig) m"
  by (auto simp: add_Block hasBD_image)

lemma hasCol_add [simp]:
  "hasCol (Table_Columns (Integration_Table (add n t ig))) m \<longleftrightarrow>
     m = n \<or> hasCol (Table_Columns (Integration_Table ig)) m"
  by (auto simp: add_Columns hasCol_image)

lemma add_twice: "add n t (add n t' ig) = add n t' ig"
  by (rule add_present) simp_all

lemma fold_abi_idx:
  "fold (\<lambda>inp ig. if \<not> Input_Indexed inp then add ''abi_idx'' ''int2'' ig else ig) inps ig =
     (if list_ex (\<lambda>inp. \<not> Input_Indexed inp) inps then add ''abi_idx'' ''int2'' ig else ig)"
proof (induction inps arbitrary: ig)
  case Nil
  show ?case by simp
next
  case (Cons inp inps)
  show ?case by (simp add: Cons.IH add_twice)
qed

lemma AddRequiredFields_fold:
  "AddRequiredFields Selected ig = fold (\<lambda>(n, t). add n t) (required_fields Selected ig) ig"
  by (simp add: AddRequiredFields_def required_fields_def Let_def fold_abi_idx)

lemma AddRequiredFields_Event [simp]:
  "Integration_Event (AddRequiredFields Selected ig) = Integration_Event ig"
proof -
  have "Integration_Event (fold (\<lambda>(n, t). add n t) fs ig) = Integration_Event ig" for fs
    by (induction fs arbitrary: ig) (simp_all split: prod.split)
  then show ?thesis by (simp add: AddRequiredFields_fold)
qed

lemma fold_add_Columns:
  "distinct (map fst fs) \<Longrightarrow>
     Table_Columns (Integration_Table (fold (\<lambda>(n, t). add n t) fs ig)) =
       Table_Columns (Integration_Table ig) @
       map (\<lambda>(n, t). \<lparr>Column_Name = n, Column_Type = t\<rparr>)
         (filter (\<lambda>(n, t). \<not> hasCol (Table_Columns (Integration_Table ig)) n) fs)"
proof (induction fs arbitrary: ig)
  case Nil
  show ?case by simp
next
  case (Cons f fs)
  obtain n t where f: "f = (n, t)" by (cases f)
  from Cons.prems f have n: "n \<notin> fst ` set fs" and d: "distinct (map fst fs)"
    by auto
  have same: "filter (\<lambda>(m, _). \<not> hasCol (Table_Columns (Integration_Table (add n t ig))) m) fs =
              filter (\<lambda>(m, _). \<not> hasCol (Table_Columns (Integration_Table ig)) m) fs"
    using n by (intro filter_cong refl) (auto simp: image_iff)
  have "Table_Columns (Integration_Table (fold (\<lambda>(n, t). add n t) fs (add n t ig))) =
       Table_Columns (Integration_Table (add n t ig)) @
       map (\<lambda>(n, t). \<lparr>Column_Name = n, Column_Type = t\<rparr>)
         (filter (\<lambda>(m, _). \<not> hasCol (Table_Columns (Integration_Table ig)) m) fs)"
    using Cons.IH [OF d, of "add n t ig"] by (simp only: same)
  then show ?case
    by (simp add: f add_Columns)
qed

lemma fold_add_Block:
  "distinct (map fst fs) \<Longrightarrow>
     Integration_Block (fold (\<lambda>(n, t). add n t) fs ig) =
       Integration_Block ig @
       map (\<lambda>(n, t). \<lparr>BlockData_Name = n, BlockData_Column = n\<rparr>)
         (filter (\<lambda>(n, t). \<not> hasBD (Integration_Block ig) n) fs)"
proof (induction fs arbitrary: ig)
  case Nil
  show ?case by simp
next
  case (Cons f fs)
  obtain n t where f: "f = (n, t)" by (cases f)
  from Cons.prems f have n: "n \<notin> fst ` set fs" and d: "distinct (map fst fs)"
    by auto
  have same: "filter (\<lambda>(m, _). \<not> hasBD (Integration_Block (add n t ig)) m) fs =
              filter (\<lambda>(m, _). \<not> hasBD (Integration_Block ig) m) fs"
    using n by (intro filter_cong refl) (auto simp: image_iff)
  have "Integration_Block (fold (\<lambda>(n, t). add n t) fs (add n t ig)) =
       Integration_Block (add n t ig) @
       map (\<lambda>(n, t). \<lparr>BlockData_Name = n, BlockData_Column = n\<rparr>)
         (filter (\<lambda>(m, _). \<not> hasBD (Integration_Block ig) m) fs)"
    using Cons.IH [OF d, of "add n t ig"] by (simp only: same)
  then show ?case
    by (simp add: f add_Block)
qed

lemma required_fields_distinct: "distinct (map fst (required_fields Selected ig))"
  by (simp add: required_fields_def)

lemma fold_add_present:
  "\<forall>n\<in>fst ` set fs. hasBD (Integration_Block ig) n \<and>
       hasCol (Table_Columns (Integration_Table ig)) n \<Longrightarrow>
     fold (\<lambda>(n, t). add n t) fs ig = ig"
  by (induction fs) (auto simp: add_present)

lemma fold_add_has:
  "hasBD (Integration_Block (fold (\<lambda>(n, t). add n t) fs ig)) m \<longleftrightarrow>
     m \<in> fst ` set fs \<or> hasBD (Integration_Block ig) m"
  "hasCol (Table_Columns (Integration_Table (fold (\<lambda>(n, t). add n t) fs ig))) m \<longleftrightarrow>
     m \<in> fst ` set fs \<or> hasCol (Table_Columns (Integration_Table ig)) m"
  by (induction fs arbitrary: ig) auto

lemma required_fields_AddRequiredFields:
  "required_fields Selected (AddRequiredFields Selected ig) = required_fields Selected ig"
  by (simp add: required_fields_def)

lemma AddRequiredFields_Columns:
  "Table_Columns (Integration_Table (AddRequiredFields Selected ig)) =
     Table_Columns (Integration_Table ig) @
     map (\<lambda>(n, t). \<lparr>Column_Name = n, Column_Type = t\<rparr>)
       (filter (\<lambda>(n, t). n \<notin> set (map Column_Name (Table_Columns (Integration_Table ig))))
          (required_fields Selected ig))"
  by (simp add: AddRequiredFields_fold fold_add_Columns required_fields_distinct hasCol_image)

lemma AddRequiredFields_Block:
  "Integration_Block (AddRequiredFields Selected ig) =
     Integration_Block ig @
     map (\<lambda>(n, t). \<lparr>BlockData_Name = n, BlockData_Column = n\<rparr>)
       (filter (\<lambda>(n, t). n \<notin> set (map BlockData_Name (Integration_Block ig)))
          (required_fields Selected ig))"
  by (simp add: AddRequiredFields_fold fold_add_Block required_fields_distinct hasBD_image)

lemma AddRequiredFields_again:
  "AddRequiredFields Selected (AddRequiredFields Selected ig) = AddRequiredFields Selected ig"
proof -
  have "fold (\<lambda>(n, t). add n t) (required_fields Selected ig) (AddRequiredFields Selected ig) = AddRequiredFields Selected ig"
    by (rule fold_add_present) (simp add: AddRequiredFields_fold fold_add_has)
  then show ?thesis
    by (simp add: AddRequiredFields_fold [of Selected "AddRequiredFields Selected ig"]
        required_fields_AddRequiredFields)
qed

lemma Selected_transfers:
  "Selected_bound (Integration_Event transfers) =
     [\<lparr>Input_Name = ''amount'', Input_Indexed = False, Input_Column = ''amount''\<rparr>]"
  by (simp add: transfers_def transfer_event_def Selected_bound_def)

lemma required_fields_transfers:
  "required_fields Selected_bound transfers =
     [(''ig_name'', ''text''), (''src_name'', ''text''), (''block_num'', ''numeric''),
      (''tx_idx'', ''int''), (''log_idx'', ''int''), (''abi_idx'', ''int2'')]"
  by (simp add: required_fields_def Selected_transfers)

text \<open>
  C2. \<open>AddRequiredFields\<close> is idempotent, whatever \<open>Event.Selected\<close> computes: applied
  to its own result it changes nothing, so the column list and the block field list
  after two runs are those after one. One run keeps the columns and block fields that
  are there, in place, and appends the required fields that are not yet present under
  their exact name: a required field that is present is neither added again nor
  overwritten.
\<close>

theorem AddRequiredFields_idempotent:
  "AddRequiredFields Selected (AddRequiredFields Selected ig) = AddRequiredFields Selected ig \<and>
   Table_Columns (Integration_Table (AddRequiredFields Selected ig)) =
     Table_Columns (Integration_Table ig) @
     map (\<lambda>(n, t). \<lparr>Column_Name = n, Column_Type = t\<rparr>)
       (filter (\<lambda>(n, t). n \<notin> set (map Column_Name (Table_Columns (Integration_Table ig))))
          (required_fields Selected ig)) \<and>
   Integration_Block (AddRequiredFields Selected ig) =
     Integration_Block ig @
     map (\<lambda>(n, t). \<lparr>BlockData_Name = n, BlockData_Column = n\<rparr>)
       (filter (\<lambda>(n, t). n \<notin> set (map BlockData_Name (Integration_Block ig)))
          (required_fields Selected ig))"
  using AddRequiredFields_again AddRequiredFields_Columns AddRequiredFields_Block
  by (intro conjI)

theorem AddRequiredFields_idempotent_witness:
  "Table_Columns (Integration_Table (AddRequiredFields Selected_bound transfers)) =
     [col ''amount'' ''numeric'', col ''tx_idx'' ''bigint'', col ''ig_name'' ''text'',
      col ''src_name'' ''text'', col ''block_num'' ''numeric'', col ''log_idx'' ''int'',
      col ''abi_idx'' ''int2''] \<and>
   Table_Columns (Integration_Table (AddRequiredFields Selected_bound (AddRequiredFields Selected_bound transfers))) =
     [col ''amount'' ''numeric'', col ''tx_idx'' ''bigint'', col ''ig_name'' ''text'',
      col ''src_name'' ''text'', col ''block_num'' ''numeric'', col ''log_idx'' ''int'',
      col ''abi_idx'' ''int2''] \<and>
   Integration_Block (AddRequiredFields Selected_bound (AddRequiredFields Selected_bound transfers)) =
     Integration_Block (AddRequiredFields Selected_bound transfers)"
  using AddRequiredFields_idempotent [of Selected_bound transfers]
  by (simp add: required_fields_transfers) (simp add: transfers_def col_def)

text \<open>
  C9, as stated, fails: the integration \<open>transfers\<close> has one selected input, which is not
  indexed, and no block fields; after \<open>AddRequiredFields\<close> its block list holds six
  bindings, one for each of the six bookkeeping names, not five.
\<close>

theorem AddRequiredFields_scenario_counterexample:
  "Selected_bound (Integration_Event transfers) =
     [\<lparr>Input_Name = ''amount'', Input_Indexed = False, Input_Column = ''amount''\<rparr>] \<and>
   Integration_Block transfers = [] \<and>
   map BlockData_Name (Integration_Block (AddRequiredFields Selected_bound transfers)) =
     [''ig_name'', ''src_name'', ''block_num'', ''tx_idx'', ''log_idx'', ''abi_idx''] \<and>
   length (Integration_Block (AddRequiredFields Selected_bound transfers)) = 6"
  by (simp add: AddRequiredFields_Block required_fields_transfers Selected_transfers)
     (simp add: transfers_def)

text \<open>
  C9, amended. For an integration with exactly one selected event input, which is not
  indexed, and no block fields, after \<open>AddRequiredFields\<close> the block list is the six
  bindings of \<open>ig_name\<close>, \<open>src_name\<close>, \<open>block_num\<close>, \<open>tx_idx\<close>, \<open>log_idx\<close>, \<open>abi_idx\<close>, each
  to the column of its own name, and the table columns are the user's own columns
  followed by added ones and include those six names.
\<close>

theorem AddRequiredFields_scenario:
  assumes "Selected (Integration_Event ig) = [inp]" and "\<not> Input_Indexed inp"
    and "Integration_Block ig = []"
  shows "Integration_Block (AddRequiredFields Selected ig) =
           map (\<lambda>n. \<lparr>BlockData_Name = n, BlockData_Column = n\<rparr>)
             [''ig_name'', ''src_name'', ''block_num'', ''tx_idx'', ''log_idx'', ''abi_idx''] \<and>
         (\<exists>added. Table_Columns (Integration_Table (AddRequiredFields Selected ig)) =
                    Table_Columns (Integration_Table ig) @ added) \<and>
         set [''ig_name'', ''src_name'', ''block_num'', ''tx_idx'', ''log_idx'', ''abi_idx'']
           \<subseteq> set (map Column_Name (Table_Columns (Integration_Table (AddRequiredFields Selected ig))))"
proof -
  have r: "required_fields Selected ig =
     [(''ig_name'', ''text''), (''src_name'', ''text''), (''block_num'', ''numeric''),
      (''tx_idx'', ''int''), (''log_idx'', ''int''), (''abi_idx'', ''int2'')]"
    using assms by (simp add: required_fields_def)
  have b: "Integration_Block (AddRequiredFields Selected ig) =
           map (\<lambda>n. \<lparr>BlockData_Name = n, BlockData_Column = n\<rparr>)
             [''ig_name'', ''src_name'', ''block_num'', ''tx_idx'', ''log_idx'', ''abi_idx'']"
    using assms by (simp add: AddRequiredFields_Block r)
  have c: "\<exists>added. Table_Columns (Integration_Table (AddRequiredFields Selected ig)) =
                    Table_Columns (Integration_Table ig) @ added"
    by (simp add: AddRequiredFields_Columns)
  have "hasCol (Table_Columns (Integration_Table (AddRequiredFields Selected ig))) m"
    if "m \<in> fst ` set (required_fields Selected ig)" for m
    using that by (simp only: AddRequiredFields_fold fold_add_has) simp
  then have "set [''ig_name'', ''src_name'', ''block_num'', ''tx_idx'', ''log_idx'', ''abi_idx'']
           \<subseteq> set (map Column_Name (Table_Columns (Integration_Table (AddRequiredFields Selected ig))))"
    by (simp add: r hasCol_image)
  with b c show ?thesis by blast
qed

theorem AddRequiredFields_scenario_witness:
  "Selected_bound (Integration_Event transfers) =
     [\<lparr>Input_Name = ''amount'', Input_Indexed = False, Input_Column = ''amount''\<rparr>] \<and>
   \<not> Input_Indexed \<lparr>Input_Name = ''amount'', Input_Indexed = False, Input_Column = ''amount''\<rparr> \<and>
   Integration_Block transfers = [] \<and>
   Integration_Block (AddRequiredFields Selected_bound transfers) =
     map (\<lambda>n. \<lparr>BlockData_Name = n, BlockData_Column = n\<rparr>)
       [''ig_name'', ''src_name'', ''block_num'', ''tx_idx'', ''log_idx'', ''abi_idx''] \<and>
   set [''ig_name'', ''src_name'', ''block_num'', ''tx_idx'', ''log_idx'', ''abi_idx'']
     \<subseteq> set (map Column_Name (Table_Columns (Integration_Table (AddRequiredFields Selected_bound transfers))))"
proof -
  have b: "Integration_Block transfers = []"
    by (simp add: transfers_def)
  have i: "\<not> Input_Indexed \<lparr>Input_Name = ''amount'', Input_Indexed = False, Input_Column = ''amount''\<rparr>"
    by simp
  from AddRequiredFields_scenario [of Selected_bound transfers, OF Selected_transfers i b] Selected_transfers b
  show ?thesis by simp
qed

subsection \<open>ValidateFix\<close>

lemma first_duplicate_None:
  "first_duplicate ns seen = None \<longleftrightarrow> distinct ns \<and> set ns \<inter> seen = {}"
  by (induction ns arbitrary: seen) auto

lemma missing_input_column_None:
  "missing_input_column cols inps = None \<longleftrightarrow>
     (\<forall>inp\<in>set inps. Input_Column inp \<in> Column_Name ` set cols)"
  by (induction inps) (auto simp: hasCol_image)

lemma missing_block_column_None:
  "missing_block_column cols bds = None \<longleftrightarrow>
     (\<forall>bd\<in>set bds. BlockData_Column bd \<noteq> [] \<and> BlockData_Column bd \<in> Column_Name ` set cols)"
  by (induction bds) (auto simp: hasCol_image)

lemma ValidateColRefs_None:
  assumes "ValidateColRefs Selected ig = None"
  shows "distinct (map Column_Name (Table_Columns (Integration_Table ig))) \<and>
     (\<forall>inp\<in>set (Selected (Integration_Event ig)).
        Input_Column inp \<in> Column_Name ` set (Table_Columns (Integration_Table ig))) \<and>
     (\<forall>bd\<in>set (Integration_Block ig). BlockData_Column bd \<noteq> [] \<and>
        BlockData_Column bd \<in> Column_Name ` set (Table_Columns (Integration_Table ig)))"
proof -
  from assms
  have "first_duplicate (map Column_Name (Table_Columns (Integration_Table ig))) {} = None"
    by (simp add: ValidateColRefs_def Let_def split: option.splits)
  then have 1: "distinct (map Column_Name (Table_Columns (Integration_Table ig)))"
    by (simp add: first_duplicate_None)
  from assms
  have "missing_input_column (Table_Columns (Integration_Table ig))
          (Selected (Integration_Event ig)) = None"
    by (simp add: ValidateColRefs_def Let_def split: option.splits)
  then have 2: "\<forall>inp\<in>set (Selected (Integration_Event ig)).
        Input_Column inp \<in> Column_Name ` set (Table_Columns (Integration_Table ig))"
    by (simp add: missing_input_column_None)
  from assms
  have "missing_block_column (Table_Columns (Integration_Table ig)) (Integration_Block ig) = None"
    by (simp add: ValidateColRefs_def Let_def split: option.splits)
  then have 3: "\<forall>bd\<in>set (Integration_Block ig). BlockData_Column bd \<noteq> [] \<and>
        BlockData_Column bd \<in> Column_Name ` set (Table_Columns (Integration_Table ig))"
    by (simp add: missing_block_column_None)
  from 1 2 3 show ?thesis by blast
qed

lemma ValidateFix_loop_None:
  "ValidateFix_loop Selected igs = ((None :: 'e error option), igs') \<Longrightarrow>
     igs' = map (fix_integration Selected) igs \<and>
     (\<forall>ig\<in>set igs'. ValidateColRefs Selected ig = (None :: 'e error option))"
proof (induction igs arbitrary: igs')
  case Nil
  then show ?case by simp
next
  case (Cons ig igs)
  obtain r rest where l: "ValidateFix_loop Selected igs = ((r :: 'e error option), rest)"
    by (cases "ValidateFix_loop Selected igs :: 'e error option \<times> Integration list")
  from Cons.prems l have v: "ValidateColRefs Selected (fix_integration Selected ig) = (None :: 'e error option)"
    and r: "r = None" and i: "igs' = fix_integration Selected ig # rest"
    by (auto simp: Let_def fix_integration_def split: option.splits)
  from Cons.IH [of rest] l r
  have "rest = map (fix_integration Selected) igs \<and> (\<forall>ig\<in>set rest. ValidateColRefs Selected ig = (None :: 'e error option))"
    by simp
  with v i show ?case by simp
qed

lemma one_column:
  "distinct (map Column_Name cols) \<Longrightarrow> n \<in> Column_Name ` set cols \<Longrightarrow>
     length (filter (\<lambda>c. Column_Name c = n) cols) = 1"
proof (induction cols)
  case Nil
  then show ?case by simp
next
  case (Cons c cols)
  show ?case
  proof (cases "Column_Name c = n")
    case True
    with Cons.prems have "n \<notin> Column_Name ` set cols"
      by simp
    then have "filter (\<lambda>c. Column_Name c = n) cols = []"
      by (auto simp: filter_empty_conv)
    with True show ?thesis by simp
  next
    case False
    with Cons show ?thesis by auto
  qed
qed

lemma add_frame:
  "add n t ig =
     ig\<lparr>Integration_Block := Integration_Block (add n t ig),
        Integration_Table := (Integration_Table ig)
          \<lparr>Table_Columns := Table_Columns (Integration_Table (add n t ig))\<rparr>\<rparr>"
  by (simp add: add_def Let_def)

lemma add_overwritten:
  "(add n t ig)\<lparr>Integration_Block := B,
       Integration_Table := (Integration_Table (add n t ig))\<lparr>Table_Columns := C\<rparr>\<rparr> =
   ig\<lparr>Integration_Block := B,
      Integration_Table := (Integration_Table ig)\<lparr>Table_Columns := C\<rparr>\<rparr>"
  by (simp add: add_def Let_def)

lemma fold_add_frame:
  "fold (\<lambda>(n, t). add n t) fs ig =
     ig\<lparr>Integration_Block := Integration_Block (fold (\<lambda>(n, t). add n t) fs ig),
        Integration_Table := (Integration_Table ig)
          \<lparr>Table_Columns :=
             Table_Columns (Integration_Table (fold (\<lambda>(n, t). add n t) fs ig))\<rparr>\<rparr>"
proof (induction fs arbitrary: ig)
  case Nil
  show ?case by simp
next
  case (Cons f fs)
  obtain n t where f: "f = (n, t)" by (cases f)
  have e: "fold (\<lambda>(n, t). add n t) (f # fs) ig = fold (\<lambda>(n, t). add n t) fs (add n t ig)"
    by (simp add: f)
  show ?case
    unfolding e by (rule trans [OF Cons.IH add_overwritten])
qed

lemma AddRequiredFields_frame:
  "AddRequiredFields Selected ig =
     ig\<lparr>Integration_Block := Integration_Block (AddRequiredFields Selected ig),
        Integration_Table := (Integration_Table ig)
          \<lparr>Table_Columns := Table_Columns (Integration_Table (AddRequiredFields Selected ig))\<rparr>\<rparr>"
  unfolding AddRequiredFields_fold by (rule fold_add_frame)

lemma AddRequiredFields_transfers:
  "AddRequiredFields Selected_bound transfers =
     transfers\<lparr>Integration_Block :=
         map (\<lambda>n. \<lparr>BlockData_Name = n, BlockData_Column = n\<rparr>)
          [''ig_name'', ''src_name'', ''block_num'', ''tx_idx'', ''log_idx'', ''abi_idx''],
       Integration_Table := (Integration_Table transfers)
         \<lparr>Table_Columns := [col ''amount'' ''numeric'', col ''tx_idx'' ''bigint'',
            col ''ig_name'' ''text'', col ''src_name'' ''text'', col ''block_num'' ''numeric'',
            col ''log_idx'' ''int'', col ''abi_idx'' ''int2'']\<rparr>\<rparr>"
proof -
  have b: "Integration_Block (AddRequiredFields Selected_bound transfers) =
         map (\<lambda>n. \<lparr>BlockData_Name = n, BlockData_Column = n\<rparr>)
          [''ig_name'', ''src_name'', ''block_num'', ''tx_idx'', ''log_idx'', ''abi_idx'']"
    by (simp add: AddRequiredFields_Block required_fields_transfers) (simp add: transfers_def)
  have c: "Table_Columns (Integration_Table (AddRequiredFields Selected_bound transfers)) =
         [col ''amount'' ''numeric'', col ''tx_idx'' ''bigint'',
            col ''ig_name'' ''text'', col ''src_name'' ''text'', col ''block_num'' ''numeric'',
            col ''log_idx'' ''int'', col ''abi_idx'' ''int2'']"
    by (simp add: AddRequiredFields_Columns required_fields_transfers)
       (simp add: transfers_def col_def)
  show ?thesis
    by (subst AddRequiredFields_frame) (simp only: b c)
qed

lemma fix_integration_transfers: "fix_integration Selected_bound transfers = transfers_fixed"
  unfolding fix_integration_def AddRequiredFields_transfers
  by (simp add: transfers_def AddUniqueIndex_def AddUniqueIndex_loop_filter possible_def col_def
      transfers_fixed_def)

lemma ValidateColRefs_transfers_fixed: "ValidateColRefs Selected_bound transfers_fixed = (None :: 'e error option)"
  by (simp add: ValidateColRefs_def Let_def transfers_fixed_def transfer_event_def Selected_bound_def
      col_def)

lemma ValidateFix_root_transfers:
  "ValidateFix no_check Selected_bound root_transfers =
     (None, root_transfers\<lparr>Root_Integrations := [transfers_fixed]\<rparr>)"
proof -
  have "CheckUserInput no_check root_transfers = None"
    by (simp add: CheckUserInput_def check_integration_def check_column_def check_def
        no_check_def root_transfers_def root_of_def transfers_def col_def)
  moreover have "ValidateFix_loop Selected_bound [transfers] = ((None :: unit error option), [transfers_fixed])"
    using fix_integration_transfers ValidateColRefs_transfers_fixed [where ?'e = unit]
    by (simp add: fix_integration_def Let_def)
  moreover have "Root_Integrations root_transfers = [transfers]"
    by (simp add: root_transfers_def root_of_def)
  ultimately show ?thesis
    by (simp add: ValidateFix_def)
qed

text \<open>
  C1. When \<open>ValidateFix\<close> returns no error (for every safety policy and whatever
  \<open>Event.Selected\<close> computes), the integrations it leaves in the configuration are the
  declared ones after \<open>AddRequiredFields\<close> and \<open>AddUniqueIndex\<close>, and in each of them the column names of the table are unique, every selected event
  input names exactly one column of the table, and every block-data field names
  exactly one column of the table.
\<close>

theorem ValidateFix_coverage:
  assumes "ValidateFix Safe Selected conf = ((None :: 'a error option), conf')"
  shows "Root_Integrations conf' = map (fix_integration Selected) (Root_Integrations conf) \<and>
         (\<forall>ig\<in>set (Root_Integrations conf').
            distinct (map Column_Name (Table_Columns (Integration_Table ig))) \<and>
            (\<forall>inp\<in>set (Selected (Integration_Event ig)).
               length (filter (\<lambda>c. Column_Name c = Input_Column inp)
                         (Table_Columns (Integration_Table ig))) = 1) \<and>
            (\<forall>bd\<in>set (Integration_Block ig).
               length (filter (\<lambda>c. Column_Name c = BlockData_Column bd)
                         (Table_Columns (Integration_Table ig))) = 1))"
proof -
  obtain r igs where l: "ValidateFix_loop Selected (Root_Integrations conf) = ((r :: 'a error option), igs)"
    by (cases "ValidateFix_loop Selected (Root_Integrations conf) :: 'a error option \<times> Integration list")
  from assms l have r: "r = None" and c: "conf' = conf\<lparr>Root_Integrations := igs\<rparr>"
    by (auto simp: ValidateFix_def split: option.splits)
  from l r have "ValidateFix_loop Selected (Root_Integrations conf) = ((None :: 'a error option), igs)"
    by simp
  from ValidateFix_loop_None [OF this]
  have igs: "igs = map (fix_integration Selected) (Root_Integrations conf)"
    and ok: "\<forall>ig\<in>set igs. ValidateColRefs Selected ig = (None :: 'a error option)"
    by simp_all
  have "distinct (map Column_Name (Table_Columns (Integration_Table ig))) \<and>
            (\<forall>inp\<in>set (Selected (Integration_Event ig)).
               length (filter (\<lambda>c. Column_Name c = Input_Column inp)
                         (Table_Columns (Integration_Table ig))) = 1) \<and>
            (\<forall>bd\<in>set (Integration_Block ig).
               length (filter (\<lambda>c. Column_Name c = BlockData_Column bd)
                         (Table_Columns (Integration_Table ig))) = 1)"
    if "ig \<in> set igs" for ig
  proof -
    from ok that have "ValidateColRefs Selected ig = (None :: 'a error option)" by blast
    from ValidateColRefs_None [OF this] show ?thesis
      by (simp add: one_column)
  qed
  with igs c show ?thesis by simp
qed

theorem ValidateFix_coverage_witness:
  "ValidateFix no_check Selected_bound root_transfers =
     (None, root_transfers\<lparr>Root_Integrations := [transfers_fixed]\<rparr>) \<and>
   Selected_bound (Integration_Event transfers_fixed) =
     [\<lparr>Input_Name = ''amount'', Input_Indexed = False, Input_Column = ''amount''\<rparr>] \<and>
   length (filter (\<lambda>c. Column_Name c = ''amount'')
             (Table_Columns (Integration_Table transfers_fixed))) = 1 \<and>
   length (filter (\<lambda>c. Column_Name c = ''abi_idx'')
             (Table_Columns (Integration_Table transfers_fixed))) = 1 \<and>
   distinct (map Column_Name (Table_Columns (Integration_Table transfers_fixed)))"
proof -
  have s: "Selected_bound (Integration_Event transfers_fixed) =
     [\<lparr>Input_Name = ''amount'', Input_Indexed = False, Input_Column = ''amount''\<rparr>]"
    by (simp add: transfers_fixed_def transfer_event_def Selected_bound_def)
  have b: "\<lparr>BlockData_Name = ''abi_idx'', BlockData_Column = ''abi_idx''\<rparr>
             \<in> set (Integration_Block transfers_fixed)"
    by (simp add: transfers_fixed_def)
  have r: "Root_Integrations (root_transfers\<lparr>Root_Integrations := [transfers_fixed]\<rparr>)
             = [transfers_fixed]"
    by simp
  from ValidateFix_coverage [OF ValidateFix_root_transfers]
  have "distinct (map Column_Name (Table_Columns (Integration_Table transfers_fixed))) \<and>
        (\<forall>inp\<in>set (Selected_bound (Integration_Event transfers_fixed)).
           length (filter (\<lambda>c. Column_Name c = Input_Column inp)
                     (Table_Columns (Integration_Table transfers_fixed))) = 1) \<and>
        (\<forall>bd\<in>set (Integration_Block transfers_fixed).
           length (filter (\<lambda>c. Column_Name c = BlockData_Column bd)
                     (Table_Columns (Integration_Table transfers_fixed))) = 1)"
    unfolding r by simp
  with s b have "distinct (map Column_Name (Table_Columns (Integration_Table transfers_fixed))) \<and>
     length (filter (\<lambda>c. Column_Name c = ''amount'')
             (Table_Columns (Integration_Table transfers_fixed))) = 1 \<and>
     length (filter (\<lambda>c. Column_Name c = ''abi_idx'')
             (Table_Columns (Integration_Table transfers_fixed))) = 1"
    by fastforce
  with s ValidateFix_root_transfers show ?thesis by simp
qed

subsection \<open>Merging by key\<close>

lemma find_append_cases:
  "find P (xs @ ys) = (case find P xs of Some x \<Rightarrow> Some x | None \<Rightarrow> find P ys)"
  by (induction xs) simp_all

lemma fold_update_lookup:
  "map_of (fold (\<lambda>x m. AList.update (key x) x m) xs m) k =
     (case find (\<lambda>x. key x = k) (rev xs) of
        Some x \<Rightarrow> Some x
      | None \<Rightarrow> map_of m k)"
proof (induction xs arbitrary: m)
  case Nil
  show ?case by simp
next
  case (Cons x xs)
  show ?case
    by (simp add: Cons.IH find_append_cases update_conv' split: option.split)
qed

lemma fold_update_distinct:
  "distinct (map fst m) \<Longrightarrow>
     distinct (map fst (fold (\<lambda>x m. AList.update (key x) x m) xs m))"
  by (induction xs arbitrary: m) (simp_all add: distinct_update)

lemma find_Some_holds: "find P xs = Some x \<Longrightarrow> P x \<and> x \<in> set xs"
  by (induction xs) (auto split: if_splits)

lemma fold_update_entry:
  assumes "(k, v) \<in> set (fold (\<lambda>x m. AList.update (key x) x m) xs [])"
  shows "key v = k \<and> find (\<lambda>x. key x = k) (rev xs) = Some v"
proof -
  have "distinct (map fst (fold (\<lambda>x m. AList.update (key x) x m) xs []))"
    by (rule fold_update_distinct) simp
  with assms have "map_of (fold (\<lambda>x m. AList.update (key x) x m) xs []) k = Some v"
    by simp
  then have f: "find (\<lambda>x. key x = k) (rev xs) = Some v"
    by (simp add: fold_update_lookup split: option.splits)
  with find_Some_holds [OF f] show ?thesis by simp
qed

lemma filter_single_find_rev:
  "filter P xs = [d] \<Longrightarrow> find P (rev xs) = Some d"
proof (induction xs rule: rev_induct)
  case Nil
  then show ?case by simp
next
  case (snoc x xs)
  show ?case
  proof (cases "P x")
    case True
    with snoc.prems have "x = d"
      by (cases "filter P xs") auto
    with True show ?thesis by simp
  next
    case False
    with snoc show ?thesis by simp
  qed
qed

lemma filter_key_single:
  "distinct (map key xs) \<Longrightarrow> x \<in> set xs \<Longrightarrow> filter (\<lambda>y. key y = key x) xs = [x]"
proof (induction xs)
  case Nil
  then show ?case by simp
next
  case (Cons y ys)
  show ?case
  proof (cases "y = x")
    case True
    with Cons.prems have "key x \<notin> key ` set ys" by simp
    then have "filter (\<lambda>y. key y = key x) ys = []"
      unfolding filter_empty_conv by (metis imageI)
    with True show ?thesis by simp
  next
    case False
    with Cons.prems have x: "x \<in> set ys" and "key y \<notin> key ` set ys" by auto
    then have "key y \<noteq> key x" by (metis imageI)
    with Cons x show ?thesis by simp
  qed
qed

lemma uniq_sources_entry_key:
  "(c, s) \<in> set (uniq_sources indb declared) \<Longrightarrow> Source_ChainID s = c"
  using fold_update_entry [of c s Source_ChainID "indb @ declared"]
  by (simp add: uniq_sources_def)

lemma uniq_sources_distinct: "distinct (map fst (uniq_sources indb declared))"
  unfolding uniq_sources_def by (intro fold_update_distinct) simp

lemma uniq_sources_lookup:
  "map_of (uniq_sources indb declared) c =
     (case find (\<lambda>s. Source_ChainID s = c) (rev declared) of
        Some d \<Rightarrow> Some d
      | None \<Rightarrow> find (\<lambda>s. Source_ChainID s = c) (rev indb))"
  by (simp add: uniq_sources_def fold_update_lookup split: option.split)

lemma uniq_sources_ids:
  "map (Source_ChainID \<circ> snd) (uniq_sources indb declared) = map fst (uniq_sources indb declared)"
  by (rule map_cong [OF refl]) (auto dest: uniq_sources_entry_key)

subsection \<open>AllSources\<close>

lemma AllSources_result:
  assumes "map_range_order rng"
  shows "AllSources rng conf (Inr indb) =
           Inr (sort_key Source_ChainID (map snd (rng (uniq_sources indb (Root_Sources conf)))))"
    and "mset (map snd (rng (uniq_sources indb (Root_Sources conf)))) =
           mset (map snd (uniq_sources indb (Root_Sources conf)))"
proof -
  show "AllSources rng conf (Inr indb) =
           Inr (sort_key Source_ChainID (map snd (rng (uniq_sources indb (Root_Sources conf)))))"
    by (simp add: AllSources_def Let_def)
  from assms have "mset (rng (uniq_sources indb (Root_Sources conf))) =
      mset (uniq_sources indb (Root_Sources conf))"
    by (simp add: map_range_order_def)
  then have "image_mset snd (mset (rng (uniq_sources indb (Root_Sources conf)))) =
      image_mset snd (mset (uniq_sources indb (Root_Sources conf)))"
    by simp
  then show "mset (map snd (rng (uniq_sources indb (Root_Sources conf)))) =
           mset (map snd (uniq_sources indb (Root_Sources conf)))"
    by simp
qed

lemma uniq_sources_example:
  "uniq_sources persisted_sources (Root_Sources root_sources) =
     [(1, source_of ''mainnet'' 1 ''http://declared''),
      (8453, source_of ''base'' 8453 ''http://base''),
      (10, source_of ''optimism'' 10 ''http://optimism'')]"
  by (simp add: uniq_sources_def persisted_sources_def root_sources_def root_of_def source_of_def)

lemma AllSources_example:
  "AllSources rev root_sources (Inr persisted_sources) =
     Inr [source_of ''mainnet'' 1 ''http://declared'',
          source_of ''optimism'' 10 ''http://optimism'',
          source_of ''base'' 8453 ''http://base'']"
  by (simp add: AllSources_def Let_def uniq_sources_example source_of_def word_le_nat_alt)

text \<open>
  C7. When the query succeeds, \<open>AllSources\<close> returns a list that is sorted ascending by
  chain identifier and holds no chain identifier twice. For each chain identifier it
  holds the last declared source with that identifier, or, when none is declared, the
  last persisted one, or nothing when there is neither: a declared source overwrites
  a persisted one. When chain identifier 1 is persisted and declared once, the source
  returned for chain 1 is the declared one, with its URL. This holds for every order the
  runtime ranges over the map in.
\<close>

theorem AllSources_merge_sorted:
  assumes "map_range_order rng"
  shows "\<exists>res. AllSources rng conf (Inr indb) = Inr res \<and>
           sorted (map Source_ChainID res) \<and> distinct (map Source_ChainID res) \<and>
           (\<forall>c. filter (\<lambda>s. Source_ChainID s = c) res =
                  (case find (\<lambda>s. Source_ChainID s = c) (rev (Root_Sources conf)) of
                     Some d \<Rightarrow> [d]
                   | None \<Rightarrow>
                       (case find (\<lambda>s. Source_ChainID s = c) (rev indb) of
                          Some p \<Rightarrow> [p]
                        | None \<Rightarrow> []))) \<and>
           (\<forall>p d. p \<in> set indb \<and> Source_ChainID p = 1 \<and>
                   filter (\<lambda>s. Source_ChainID s = 1) (Root_Sources conf) = [d] \<longrightarrow>
                   filter (\<lambda>s. Source_ChainID s = 1) res = [d])"
proof -
  let ?uniq = "uniq_sources indb (Root_Sources conf)"
  let ?res = "sort_key Source_ChainID (map snd (rng ?uniq))"
  have res: "AllSources rng conf (Inr indb) = Inr ?res"
    using assms by (rule AllSources_result(1))
  have m: "mset ?res = mset (map snd ?uniq)"
    using AllSources_result(2) [OF assms] by simp
  then have s: "set ?res = snd ` set ?uniq"
    by (metis set_map set_mset_mset)
  have sorted: "sorted (map Source_ChainID ?res)"
    by (rule sorted_sort_key)
  have "mset (map Source_ChainID ?res) = mset (map (Source_ChainID \<circ> snd) ?uniq)"
    using arg_cong [OF m, of "image_mset Source_ChainID"] by (simp add: multiset.map_comp)
  then have "mset (map Source_ChainID ?res) = mset (map fst ?uniq)"
    by (simp only: uniq_sources_ids)
  then have distinct: "distinct (map Source_ChainID ?res)"
    using uniq_sources_distinct [of indb "Root_Sources conf"]
    by (metis mset_eq_imp_distinct_iff)
  have mem: "x \<in> set ?res \<longleftrightarrow> map_of ?uniq (Source_ChainID x) = Some x" for x
  proof
    assume "x \<in> set ?res"
    with s obtain c where c: "(c, x) \<in> set ?uniq" by auto
    then have "Source_ChainID x = c" by (rule uniq_sources_entry_key)
    with c uniq_sources_distinct [of indb "Root_Sources conf"]
    show "map_of ?uniq (Source_ChainID x) = Some x" by simp
  next
    assume "map_of ?uniq (Source_ChainID x) = Some x"
    then have "(Source_ChainID x, x) \<in> set ?uniq" by (rule map_of_SomeD)
    with s show "x \<in> set ?res" by force
  qed
  have filt: "filter (\<lambda>s. Source_ChainID s = c) ?res =
                  (case find (\<lambda>s. Source_ChainID s = c) (rev (Root_Sources conf)) of
                     Some d \<Rightarrow> [d]
                   | None \<Rightarrow>
                       (case find (\<lambda>s. Source_ChainID s = c) (rev indb) of
                          Some p \<Rightarrow> [p]
                        | None \<Rightarrow> []))" for c
  proof (cases "map_of ?uniq c")
    case None
    have "filter (\<lambda>s. Source_ChainID s = c) ?res = []"
      unfolding filter_empty_conv
    proof (intro ballI notI)
      fix x assume "x \<in> set ?res" and "Source_ChainID x = c"
      with mem [of x] None show False by simp
    qed
    with None show ?thesis
      by (simp add: uniq_sources_lookup split: option.splits)
  next
    case (Some x)
    then have "(c, x) \<in> set ?uniq" by (rule map_of_SomeD)
    then have c: "Source_ChainID x = c" by (rule uniq_sources_entry_key)
    with Some mem [of x] have "x \<in> set ?res" by simp
    with distinct have "filter (\<lambda>y. Source_ChainID y = Source_ChainID x) ?res = [x]"
      by (rule filter_key_single)
    with Some c show ?thesis
      by (simp add: uniq_sources_lookup split: option.splits)
  qed
  have one: "filter (\<lambda>s. Source_ChainID s = 1) ?res = [d]"
    if "filter (\<lambda>s. Source_ChainID s = 1) (Root_Sources conf) = [d]" for d
    using filter_single_find_rev [OF that] by (simp add: filt)
  from res sorted distinct filt one show ?thesis by blast
qed

theorem AllSources_merge_sorted_witness:
  "map_range_order (rev :: (64 word, Source) map_range) \<and>
   source_of ''mainnet'' 1 ''http://persisted'' \<in> set persisted_sources \<and>
   filter (\<lambda>s. Source_ChainID s = 1) (Root_Sources root_sources) =
     [source_of ''mainnet'' 1 ''http://declared''] \<and>
   AllSources rev root_sources (Inr persisted_sources) =
     Inr [source_of ''mainnet'' 1 ''http://declared'',
          source_of ''optimism'' 10 ''http://optimism'',
          source_of ''base'' 8453 ''http://base'']"
proof -
  have p: "source_of ''mainnet'' 1 ''http://persisted'' \<in> set persisted_sources"
    by (simp add: persisted_sources_def)
  have d: "filter (\<lambda>s. Source_ChainID s = 1) (Root_Sources root_sources) =
     [source_of ''mainnet'' 1 ''http://declared'']"
    by (simp add: root_sources_def root_of_def source_of_def)
  from AllSources_merge_sorted [OF map_range_order_rev, of root_sources persisted_sources]
    p d AllSources_example map_range_order_rev
  show ?thesis by simp
qed

subsection \<open>IntegrationsBySource\<close>










subsection \<open>CheckUserInput\<close>

lemma check_label: "check Safe name val err = check Safe [] val err"
  by (simp add: check_def)

lemma check_columns:
  "fold (check_column Safe) cols err =
     fold (check Safe []) (concat (map (\<lambda>c. [Column_Name c, Column_Type c]) cols)) err"
  by (induction cols arbitrary: err)
     (simp_all add: check_column_def check_label [of _ "''column name''"]
        check_label [of _ "''column type''"])

lemma check_integrations:
  "fold (check_integration Safe) igs err =
     fold (check Safe [])
       (concat (map (\<lambda>ig. Integration_Name ig # Table_Name (Integration_Table ig) #
                    concat (map (\<lambda>c. [Column_Name c, Column_Type c])
                              (Table_Columns (Integration_Table ig)))) igs)) err"
  by (induction igs arbitrary: err)
     (simp_all add: check_integration_def check_columns check_label [of _ "''table name''"]
        check_label [of _ "''integration name''"])

lemma check_sources:
  "fold (\<lambda>sc. check Safe ''source name'' (Source_Name sc)) srcs err =
     fold (check Safe []) (map Source_Name srcs) err"
  by (induction srcs arbitrary: err) (simp_all add: check_label [of _ "''source name''"])

lemma check_fold_Some: "fold (check Safe []) vals (Some e) = Some e"
  by (induction vals) (simp_all add: check_def)

lemma check_fold_None:
  "fold (check Safe []) vals None =
     (case find (\<lambda>v. Safe v \<noteq> None) vals of
        None \<Rightarrow> None
      | Some v \<Rightarrow> map_option (Unsafe_value v) (Safe v))"
proof (induction vals)
  case Nil
  show ?case by simp
next
  case (Cons v vals)
  show ?case
  proof (cases "Safe v")
    case None
    then have "check Safe [] v None = None"
      by (simp add: check_def)
    with None Cons show ?thesis by simp
  next
    case (Some e)
    then have "check Safe [] v None = Some (Unsafe_value v e)"
      by (simp add: check_def)
    with Some show ?thesis by (simp add: check_fold_Some)
  qed
qed

text \<open>
  \<open>CheckUserInput\<close> returns the error of the first unsafe value in checking order, and
  none when every value is safe. The error is built from the value and the error of
  \<open>wstrings.Safe\<close> alone.
\<close>

theorem CheckUserInput_first_unsafe:
  "CheckUserInput Safe conf =
     (case find (\<lambda>v. Safe v \<noteq> None) (checked_values conf) of
        None \<Rightarrow> None
      | Some v \<Rightarrow> map_option (Unsafe_value v) (Safe v))"
proof -
  have "CheckUserInput Safe conf = fold (check Safe []) (checked_values conf) None"
    by (simp add: CheckUserInput_def checked_values_def check_integrations check_sources)
  then show ?thesis by (simp add: check_fold_None)
qed

text \<open>
  C8. The error \<open>CheckUserInput\<close> returns does not say which field the unsafe value came
  from: the string \<open>a;b\<close> as an integration name and the same string as a table name
  give the same error. The label each call of \<open>check\<close> passes is never used.
\<close>

theorem CheckUserInput_error_omits_field:
  "CheckUserInput no_semicolon root_unsafe_integration_name =
     Some (Unsafe_value ''a;b'' ''unsafe'') \<and>
   CheckUserInput no_semicolon root_unsafe_table_name =
     Some (Unsafe_value ''a;b'' ''unsafe'')"
  by (simp add: CheckUserInput_def check_integration_def check_column_def check_def
      no_semicolon_def root_unsafe_integration_name_def root_unsafe_table_name_def root_of_def
      integration_of_def prices_x_def col_def)

end
